theory Spec2Isabelle
  imports Complex_Main
begin

section \<open>Data model\<close>

text \<open>
  The quantizer of \<^verbatim>\<open>src/awq/quantize/quantizer.py\<close> works on torch tensors. A tensor is
  modelled by its shape and its elements in row-major order; the elements of weights,
  activations and scales are exact reals (the finite values of the floating-point types,
  without rounding). A well-formed tensor has as many elements as its shape says.
\<close>

record tensor =
  shape :: "nat list"
  vals :: "real list"


text \<open>
  The exceptions of the source. \<open>TorchError\<close> stands for an error raised inside a torch
  call (a reshape or view that does not fit, a reduction over an empty dimension, a split
  size that is not allowed); \<open>IndexError\<close> is Python's error for \<^verbatim>\<open>shape[-1]\<close> of a
  tensor without dimensions; \<open>AttributeError\<close> is Python's error for a method called
  on \<^verbatim>\<open>None\<close>; \<open>SearchException\<close> is the bare \<^verbatim>\<open>raise Exception\<close> of
  \<^verbatim>\<open>_compute_best_scale\<close>; \<open>ValueError\<close> carries the version tag of
  \<^verbatim>\<open>raise ValueError(f"Unknown version {self.version}")\<close>.
\<close>

datatype error =
    AssertionError
  | AttributeError
  | IndexError
  | TorchError
  | ZeroDivisionError
  | ValueError string
  | SearchException

text \<open>The fields of \<^verbatim>\<open>AwqQuantizer\<close> that the modelled methods read.\<close>

record config =
  w_bit :: nat
  group_size :: int
  zero_point :: bool
  version :: string
  duo_scaling :: bool
  max_chunk_memory :: int

section \<open>Torch primitives\<close>

text \<open>\<^verbatim>\<open>torch.round\<close> rounds halves to the nearest even integer.\<close>

definition torch_round :: "real \<Rightarrow> int" where
  "torch_round x =
     (let f = \<lfloor>x\<rfloor>; d = x - of_int f in
      if d < 1 / 2 then f
      else if 1 / 2 < d then f + 1
      else if even f then f else f + 1)"

text \<open>\<^verbatim>\<open>torch.clamp(x, lo, hi)\<close> is \<open>min (max x lo) hi\<close>.\<close>

definition clamp :: "'a::linorder \<Rightarrow> 'a \<Rightarrow> 'a \<Rightarrow> 'a" where
  "clamp x lo hi = min (max x lo) hi"

text \<open>
  Consecutive pieces of length \<open>n\<close> (the last one may be shorter): the rows of
  \<^verbatim>\<open>reshape(-1, n)\<close> on row-major data, and the pieces of \<^verbatim>\<open>torch.split(t, n)\<close>.
\<close>

function chunks :: "nat \<Rightarrow> 'a list \<Rightarrow> 'a list list" where
  "chunks n xs = (if n = 0 \<or> xs = [] then [] else take n xs # chunks n (drop n xs))"
  by pat_completeness auto
termination
  by (relation "measure (\<lambda>(n, xs). length xs)") auto

declare chunks.simps [simp del]

section \<open>Pseudo-quantization\<close>

text \<open>
  \<^verbatim>\<open>pseudo_quantize_tensor\<close>, lines 75-110. First the grouping: with a positive group
  size the last dimension must be a multiple of it and the tensor is reshaped to rows of
  that length; otherwise the tensor must already be two-dimensional and its rows are the
  groups. In that second case a tensor without elements makes a later torch call fail
  (the reduction over an empty row, or the final view with an inferred dimension); in the
  first case it does so when the leading dimension is zero (the final view), and otherwise
  all results are empty.
\<close>

definition quant_groups :: "config \<Rightarrow> tensor \<Rightarrow> error + real list list" where
  "quant_groups cfg w =
     (if 0 < group_size cfg then
        (if shape w = [] then Inl IndexError
         else if int (last (shape w)) mod group_size cfg \<noteq> 0 then Inl AssertionError
         else if vals w = [] \<and> hd (shape w) = 0 then Inl TorchError
         else Inr (chunks (nat (group_size cfg)) (vals w)))
      else if length (shape w) \<noteq> 2 then Inl AssertionError
      else if vals w = [] then Inl TorchError
      else Inr (chunks (shape w ! 1) (vals w)))"

text \<open>
  The integer range. The configuration has \<open>w_bit \<ge> 2\<close>; the theorems below assume it
  (with \<open>w_bit = 1\<close> the symmetric \<^verbatim>\<open>max_int\<close> is 0 and the scale is a division by
  zero).
\<close>

definition max_int :: "config \<Rightarrow> int" where
  "max_int cfg = (if zero_point cfg then 2 ^ w_bit cfg - 1 else 2 ^ (w_bit cfg - 1) - 1)"

definition min_int :: "config \<Rightarrow> int" where
  "min_int cfg = (if zero_point cfg then 0 else - (2 ^ (w_bit cfg - 1)))"

text \<open>The scale of one group (one row after the reshape).\<close>

definition row_scale :: "config \<Rightarrow> real list \<Rightarrow> real" where
  "row_scale cfg row =
     (if zero_point cfg
      then max (Max (set row) - Min (set row)) (1 / 100000) / of_int (max_int cfg)
      else max (Max (set (map abs row))) (1 / 100000) / of_int (max_int cfg))"

text \<open>The zero offset of one group; symmetric mode has none (\<^verbatim>\<open>zeros = None\<close>).\<close>

definition row_zero :: "config \<Rightarrow> real list \<Rightarrow> int" where
  "row_zero cfg row =
     clamp (- torch_round (Min (set row) / row_scale cfg row)) (min_int cfg) (max_int cfg)"

text \<open>
  The integer codes of one group: the clamped tensor inside the expression that
  dequantizes it again, \<^verbatim>\<open>torch.clamp(torch.round(w / scales) + zeros, min_int, max_int)\<close>
  in zero-point mode and \<^verbatim>\<open>torch.clamp(torch.round(w / scales), min_int, max_int)\<close> in
  symmetric mode.
\<close>

definition row_codes :: "config \<Rightarrow> real list \<Rightarrow> int list" where
  "row_codes cfg row =
     (if zero_point cfg
      then map (\<lambda>v. clamp (torch_round (v / row_scale cfg row) + row_zero cfg row)
                    (min_int cfg) (max_int cfg)) row
      else map (\<lambda>v. clamp (torch_round (v / row_scale cfg row)) (min_int cfg) (max_int cfg)) row)"

definition row_dequant :: "config \<Rightarrow> real list \<Rightarrow> real list" where
  "row_dequant cfg row =
     (if zero_point cfg
      then map (\<lambda>c. of_int (c - row_zero cfg row) * row_scale cfg row) (row_codes cfg row)
      else map (\<lambda>c. of_int c * row_scale cfg row) (row_codes cfg row))"

text \<open>The codes of all groups, as they exist inside \<^verbatim>\<open>pseudo_quantize_tensor\<close>.\<close>

definition pseudo_quantize_codes :: "config \<Rightarrow> tensor \<Rightarrow> error + int list list" where
  "pseudo_quantize_codes cfg w =
     (case quant_groups cfg w of
        Inl e \<Rightarrow> Inl e
      | Inr rows \<Rightarrow> Inr (map (row_codes cfg) rows))"

text \<open>
  The result \<^verbatim>\<open>(w, scales, zeros)\<close>: the dequantized tensor in the original shape, and
  one scale (and one zero offset in zero-point mode) per group, viewed as
  \<^verbatim>\<open>(org_w_shape[0], -1)\<close>.
\<close>

definition pseudo_quantize_tensor ::
  "config \<Rightarrow> tensor \<Rightarrow> error + (tensor \<times> tensor \<times> tensor option)" where
  "pseudo_quantize_tensor cfg w =
     (case quant_groups cfg w of
        Inl e \<Rightarrow> Inl e
      | Inr rows \<Rightarrow>
          (let per_row = [hd (shape w), length rows div hd (shape w)] in
           Inr (\<lparr>shape = shape w, vals = concat (map (row_dequant cfg) rows)\<rparr>,
                \<lparr>shape = per_row, vals = map (row_scale cfg) rows\<rparr>,
                (if zero_point cfg
                 then Some \<lparr>shape = per_row, vals = map (\<lambda>r. of_int (row_zero cfg r)) rows\<rparr>
                 else None))))"

text \<open>The length of a group, as \<^verbatim>\<open>pseudo_quantize_tensor\<close> chooses it.\<close>

definition group_len :: "config \<Rightarrow> tensor \<Rightarrow> nat" where
  "group_len cfg w = (if 0 < group_size cfg then nat (group_size cfg) else shape w ! 1)"

text \<open>A configuration used in the worked examples: 4 bits, groups of two, zero-point mode.\<close>

definition example_config :: config where
  "example_config =
     \<lparr>w_bit = 4, group_size = 2, zero_point = True, version = ''gemm'',
      duo_scaling = True, max_chunk_memory = 1073741824\<rparr>"

text \<open>
  \<^verbatim>\<open>t.repeat(1, n)\<close> of a two-dimensional tensor, as its elements: every row is written
  \<open>n\<close> times in a row.
\<close>

definition repeat_cols :: "nat \<Rightarrow> tensor \<Rightarrow> real list" where
  "repeat_cols n t =
     concat (map (\<lambda>row. concat (replicate n row)) (chunks (last (shape t)) (vals t)))"

text \<open>
  \<^verbatim>\<open>pseudo_dequantize_tensor\<close>, lines 112-126; \<open>w\<close> is \<^verbatim>\<open>w.weight.data\<close>, the codes.
  The reshape of the repeated scales (and zeros) to the shape of the weight needs as many
  elements as the weight has.
\<close>

definition pseudo_dequantize_tensor ::
  "config \<Rightarrow> tensor \<Rightarrow> tensor \<Rightarrow> tensor option \<Rightarrow> error + tensor" where
  "pseudo_dequantize_tensor cfg w scales zeros =
     (if last (shape scales) = 0 then Inl ZeroDivisionError
      else
        (let repeat_count = last (shape w) div last (shape scales);
             s = repeat_cols repeat_count scales
         in if length s \<noteq> length (vals w) then Inl TorchError
            else if zero_point cfg then
              (case zeros of
                 None \<Rightarrow> Inl AttributeError
               | Some z \<Rightarrow>
                   (let zs = repeat_cols repeat_count z in
                    if length zs \<noteq> length (vals w) then Inl TorchError
                    else Inr (w\<lparr>vals := map2 (\<lambda>(c, z) s. (c - z) * s) (zip (vals w) zs) s\<rparr>)))
            else Inr (w\<lparr>vals := map2 (*) (vals w) s\<rparr>)))"

section \<open>Loss evaluation\<close>

text \<open>
  Module outputs and losses are floating-point values that may be infinite or NaN: the
  scale search compares a loss with \<^verbatim>\<open>float("inf")\<close>. \<open>Fin\<close> carries an exact real;
  the arithmetic on the other values is that of IEEE 754.
\<close>

datatype fl = Fin real | PInf | NInf | NaN

fun fl_neg :: "fl \<Rightarrow> fl" where
  "fl_neg (Fin x) = Fin (- x)"
| "fl_neg PInf = NInf"
| "fl_neg NInf = PInf"
| "fl_neg NaN = NaN"

fun fl_add :: "fl \<Rightarrow> fl \<Rightarrow> fl" where
  "fl_add (Fin x) (Fin y) = Fin (x + y)"
| "fl_add NaN _ = NaN"
| "fl_add _ NaN = NaN"
| "fl_add PInf NInf = NaN"
| "fl_add NInf PInf = NaN"
| "fl_add PInf _ = PInf"
| "fl_add _ PInf = PInf"
| "fl_add NInf _ = NInf"
| "fl_add _ NInf = NInf"

definition fl_sub :: "fl \<Rightarrow> fl \<Rightarrow> fl" where
  "fl_sub a b = fl_add a (fl_neg b)"

text \<open>\<^verbatim>\<open>.pow(2)\<close>.\<close>

fun fl_sq :: "fl \<Rightarrow> fl" where
  "fl_sq (Fin x) = Fin (x * x)"
| "fl_sq PInf = PInf"
| "fl_sq NInf = PInf"
| "fl_sq NaN = NaN"

text \<open>Division by a positive count.\<close>

fun fl_div :: "fl \<Rightarrow> nat \<Rightarrow> fl" where
  "fl_div (Fin x) n = Fin (x / real n)"
| "fl_div PInf n = PInf"
| "fl_div NInf n = NInf"
| "fl_div NaN n = NaN"

text \<open>The comparison \<^verbatim>\<open><\<close> of floats: false whenever a side is NaN.\<close>

fun fl_less :: "fl \<Rightarrow> fl \<Rightarrow> bool" where
  "fl_less (Fin x) (Fin y) = (x < y)"
| "fl_less NaN _ = False"
| "fl_less _ NaN = False"
| "fl_less _ NInf = False"
| "fl_less PInf _ = False"
| "fl_less NInf _ = True"
| "fl_less _ PInf = True"

fun fl_finite :: "fl \<Rightarrow> bool" where
  "fl_finite (Fin x) = True"
| "fl_finite _ = False"

text \<open>\<^verbatim>\<open>.sum()\<close>; the sum of no elements is zero.\<close>

definition fl_sum :: "fl list \<Rightarrow> fl" where
  "fl_sum xs = foldr fl_add xs (Fin 0)"

text \<open>
  \<^verbatim>\<open>torch.split(t, k)\<close> on a one-dimensional tensor: a negative size is refused, size zero
  is allowed for an empty tensor only, and there is always at least one piece.
\<close>

definition torch_split :: "int \<Rightarrow> 'a list \<Rightarrow> error + 'a list list" where
  "torch_split k xs =
     (if k < 0 then Inl TorchError
      else if k = 0 \<and> xs \<noteq> [] then Inl TorchError
      else if xs = [] then Inr [[]]
      else Inr (chunks (nat k) xs))"

text \<open>
  The difference of two one-dimensional chunks: element by element when the lengths
  agree, a chunk of one element is broadcast, anything else is a shape error.
\<close>

definition chunk_sub :: "fl list \<Rightarrow> fl list \<Rightarrow> error + fl list" where
  "chunk_sub a b =
     (if length a = length b then Inr (map2 fl_sub a b)
      else if length b = 1 then Inr (map (\<lambda>x. fl_sub x (hd b)) a)
      else if length a = 1 then Inr (map (\<lambda>y. fl_sub (hd a) y) b)
      else Inl TorchError)"

text \<open>The loop of \<^verbatim>\<open>_compute_loss\<close> over the zipped chunks, \<open>loss\<close> the accumulator.\<close>

fun loss_loop :: "fl \<Rightarrow> (fl list \<times> fl list) list \<Rightarrow> error + fl" where
  "loss_loop loss [] = Inr loss"
| "loss_loop loss ((fp16_chunk, int_w_chunk) # rest) =
     (case chunk_sub fp16_chunk int_w_chunk of
        Inl e \<Rightarrow> Inl e
      | Inr d \<Rightarrow> loss_loop (fl_add loss (fl_sum (map fl_sq d))) rest)"

text \<open>
  \<^verbatim>\<open>_compute_loss\<close>, lines 433-469. \<open>element_size\<close> is \<^verbatim>\<open>fp16_output.element_size()\<close>,
  the byte width of the output's floating-point type.
\<close>

definition compute_loss :: "config \<Rightarrow> nat \<Rightarrow> fl list \<Rightarrow> fl list \<Rightarrow> error + fl" where
  "compute_loss cfg element_size fp16_output int_w_output =
     (let num_elements = length fp16_output in
      if element_size = 0 then Inl ZeroDivisionError
      else
        (let chunk_size =
               min (max_chunk_memory cfg div (int element_size * 2)) (int num_elements) in
         case torch_split chunk_size fp16_output of
           Inl e \<Rightarrow> Inl e
         | Inr fp16_chunks \<Rightarrow>
             (case torch_split chunk_size int_w_output of
                Inl e \<Rightarrow> Inl e
              | Inr int_w_chunks \<Rightarrow>
                  (case loss_loop (Fin 0) (zip fp16_chunks int_w_chunks) of
                     Inl e \<Rightarrow> Inl e
                   | Inr loss \<Rightarrow>
                       if num_elements = 0 then Inl ZeroDivisionError
                       else Inr (fl_div loss num_elements)))))"

text \<open>
  The unchunked reference of the specification: \<open>sum((a - b)^2) / n\<close>.
\<close>

definition mse_reference :: "fl list \<Rightarrow> fl list \<Rightarrow> fl" where
  "mse_reference a b = fl_div (fl_sum (map2 (\<lambda>x y. fl_sq (fl_sub x y)) a b)) (length a)"

section \<open>Packing the quantized layers\<close>

text \<open>
  A linear layer (\<^verbatim>\<open>nn.Linear\<close>) with its weight and optional bias. The conversion
  \<^verbatim>\<open>.to(get_best_device()).half()\<close> changes device and precision only and is the identity
  on exact reals.
\<close>

record linear =
  weight :: tensor
  bias :: "tensor option"

text \<open>The four replacement modules that \<^verbatim>\<open>_apply_quant\<close> chooses from.\<close>

datatype kernel = WQLinear_GEMM | WQLinear_GEMV | WQLinear_Marlin | WQLinear_GEMVFast

text \<open>
  The replacement module. \<^verbatim>\<open>from_linear\<close> belongs to \<^verbatim>\<open>awq.modules.linear\<close>, outside
  the modelled file; its result is represented by the arguments it is built from: the
  linear layer (holding the pseudo-quantized weight), \<^verbatim>\<open>w_bit\<close>, \<^verbatim>\<open>group_size\<close>,
  \<^verbatim>\<open>scales\<close> and \<^verbatim>\<open>zeros\<close>.
\<close>

datatype packed = From_linear kernel linear nat int tensor "tensor option"

text \<open>\<^verbatim>\<open>t.t().contiguous()\<close> of a two-dimensional tensor.\<close>

definition tensor_t :: "tensor \<Rightarrow> tensor" where
  "tensor_t t = \<lparr>shape = rev (shape t), vals = concat (transpose (chunks (shape t ! 1) (vals t)))\<rparr>"

text \<open>The \<^verbatim>\<open>if/elif\<close> chain over \<^verbatim>\<open>self.version\<close>; \<open>None\<close> is the final \<^verbatim>\<open>else\<close>.\<close>

definition select_kernel :: "string \<Rightarrow> kernel option" where
  "select_kernel v =
     (if v = ''gemm'' then Some WQLinear_GEMM
      else if v = ''gemv'' then Some WQLinear_GEMV
      else if v = ''marlin'' then Some WQLinear_Marlin
      else if v = ''gemv_fast'' then Some WQLinear_GEMVFast
      else None)"

text \<open>
  \<^verbatim>\<open>_apply_quant\<close>, lines 204-245. \<open>named_linears\<close> is the dictionary of the layer's
  \<^verbatim>\<open>nn.Linear\<close> objects in iteration order; assigning \<^verbatim>\<open>linear_layer.weight.data\<close>
  changes the object in the dictionary entry. \<open>ops\<close> records the modules that
  \<^verbatim>\<open>set_op_by_name\<close> has installed in place of a linear layer. The result is the exception
  raised (if any), the linear objects and the installed modules at that moment.
\<close>

fun apply_quant ::
  "config \<Rightarrow> (string \<times> linear) list \<Rightarrow> (string \<rightharpoonup> packed) \<Rightarrow>
     error option \<times> (string \<times> linear) list \<times> (string \<rightharpoonup> packed)" where
  "apply_quant cfg [] ops = (None, [], ops)"
| "apply_quant cfg ((name, linear_layer) # rest) ops =
     (case pseudo_quantize_tensor cfg (weight linear_layer) of
        Inl e \<Rightarrow> (Some e, (name, linear_layer) # rest, ops)
      | Inr (w, scales, zeros) \<Rightarrow>
          (let linear_layer' = linear_layer\<lparr>weight := w\<rparr> in
           case select_kernel (version cfg) of
             None \<Rightarrow> (Some (ValueError (version cfg)), (name, linear_layer') # rest, ops)
           | Some q_linear_module \<Rightarrow>
               (let scales' = (if q_linear_module = WQLinear_GEMM then tensor_t scales else scales);
                    zeros' = (if q_linear_module = WQLinear_GEMM then map_option tensor_t zeros
                              else zeros);
                    q_linear = From_linear q_linear_module linear_layer' (w_bit cfg)
                                 (group_size cfg) scales' zeros'
                in case apply_quant cfg rest (ops(name \<mapsto> q_linear)) of
                     (r, rest', ops') \<Rightarrow> (r, (name, linear_layer') # rest', ops'))))"

section \<open>Scale search: weight statistics\<close>

text \<open>
  \<^verbatim>\<open>torch.cat(ts, dim=0)\<close> of the two-dimensional weights of linear layers: the list must
  not be empty and the column counts must agree.
\<close>

definition torch_cat0 :: "tensor list \<Rightarrow> error + tensor" where
  "torch_cat0 ts =
     (if ts = [] then Inl TorchError
      else if \<exists>t \<in> set ts. length (shape t) \<noteq> 2 \<or> shape t ! 1 \<noteq> shape (hd ts) ! 1
      then Inl TorchError
      else Inr \<lparr>shape = [sum_list (map (\<lambda>t. shape t ! 0) ts), shape (hd ts) ! 1],
                vals = concat (map vals ts)\<rparr>)"

text \<open>
  The rows of \<^verbatim>\<open>t.view(-1, g)\<close>. torch refuses \<open>g = -1\<close> (only one dimension can be
  inferred), every other negative \<open>g\<close> (invalid shape dimension), \<open>g = 0\<close>, an empty
  tensor (the inferred dimension is ambiguous) and an element count that is not a
  multiple of \<open>g\<close>.
\<close>

definition view_groups :: "int \<Rightarrow> real list \<Rightarrow> error + real list list" where
  "view_groups g xs =
     (if g \<le> 0 then Inl TorchError
      else if xs = [] then Inl TorchError
      else if int (length xs) mod g \<noteq> 0 then Inl TorchError
      else Inr (chunks (nat g) xs))"

text \<open>\<^verbatim>\<open>t.mean(0)\<close> of a tensor with \<open>cols\<close> columns, given by its elements.\<close>

definition mean0 :: "nat \<Rightarrow> real list \<Rightarrow> real list" where
  "mean0 cols xs =
     (let rows = chunks cols xs in
      map (\<lambda>j. sum_list (map (\<lambda>r. r ! j) rows) / real (length rows)) [0..<cols])"

text \<open>
  Step 1 of \<^verbatim>\<open>_search_best_scale\<close>, lines 302-315: the weights of the layers are
  concatenated, viewed as rows of \<^verbatim>\<open>self.group_size\<close>, every row is divided by its largest
  magnitude plus \<open>1e-6\<close>, and the result, back in the original shape, is averaged over
  the output channels.
\<close>

definition compute_w_mean :: "config \<Rightarrow> linear list \<Rightarrow> error + real list" where
  "compute_w_mean cfg layers =
     (case torch_cat0 (map weight layers) of
        Inl e \<Rightarrow> Inl e
      | Inr w \<Rightarrow>
          (case view_groups (group_size cfg) (vals w) of
             Inl e \<Rightarrow> Inl e
           | Inr rows \<Rightarrow>
               (let w_scale =
                      concat (map (\<lambda>row. map (\<lambda>v. \<bar>v\<bar> / (Max (set (map abs row)) + 1 / 1000000)) row)
                                rows)
                in Inr (mean0 (shape w ! 1) w_scale))))"

section \<open>Clip search\<close>

text \<open>
  \<^verbatim>\<open>_compute_best_clip\<close>, lines 491-549, with its default arguments \<^verbatim>\<open>n_grid=20\<close>,
  \<^verbatim>\<open>max_shrink=0.5\<close> (so \<^verbatim>\<open>int(max_shrink * n_grid)\<close> is 10 grid steps) and
  \<^verbatim>\<open>n_sample_token=512\<close>, as \<^verbatim>\<open>_search_best_clip\<close> calls it.

  The reshaped operands: the input features as tokens, each a list of groups
  (\<^verbatim>\<open>[1, n_token, n_group, group size]\<close>, after keeping every \<^verbatim>\<open>step_size\<close>-th token),
  their number of groups per token, the group length, and the number of groups in a
  weight row.
\<close>

record clip_env =
  feat :: "real list list list"
  feat_groups :: nat
  glen :: nat
  n_group :: nat

text \<open>
  The assertion on the weight's dimension and the views and reshapes of lines 500-512.
  \<^verbatim>\<open>input_feat.view(-1, input_feat.shape[-1])\<close> followed by
  \<^verbatim>\<open>reshape(1, n_token, -1, group_size)\<close> needs a non-empty tensor whose last dimension
  is a multiple of the group length; \<^verbatim>\<open>w.reshape(co, 1, -1, group_size)\<close> needs
  \<open>co * group_size > 0\<close> dividing the number of elements.
\<close>

definition clip_reshape :: "config \<Rightarrow> tensor \<Rightarrow> tensor \<Rightarrow> error + clip_env" where
  "clip_reshape cfg w input_feat =
     (if length (shape w) \<noteq> 2 then Inl AssertionError
      else
        (let gs = (if 0 < group_size cfg then nat (group_size cfg) else shape w ! 1) in
         if shape input_feat = [] then Inl IndexError
         else
           (let cx = last (shape input_feat) in
            if cx = 0 \<or> vals input_feat = [] \<or> length (vals input_feat) mod cx \<noteq> 0
            then Inl TorchError
            else if gs = 0 \<or> cx mod gs \<noteq> 0 then Inl TorchError
            else
              (let tokens = map (chunks gs) (chunks cx (vals input_feat));
                   step_size = max 1 (length tokens div 512)
               in if shape w ! 0 = 0 \<or> length (vals w) mod (shape w ! 0 * gs) \<noteq> 0
                  then Inl TorchError
                  else Inr \<lparr>feat = map hd (chunks step_size tokens),
                            feat_groups = cx div gs,
                            glen = gs,
                            n_group = length (vals w) div (shape w ! 0 * gs)\<rparr>))))"

text \<open>\<^verbatim>\<open>oc_batch_size = 256 if org_w_shape[0] % 256 == 0 else 64\<close>.\<close>

definition oc_batch_size :: "nat \<Rightarrow> nat" where
  "oc_batch_size co = (if co mod 256 = 0 then 256 else 64)"

definition dot :: "real list \<Rightarrow> real list \<Rightarrow> real" where
  "dot a b = sum_list (map2 (*) a b)"

text \<open>
  \<^verbatim>\<open>(input_feat * w).sum(dim=-1)\<close> for one output channel and one group \<open>g\<close> of it: one
  value per token. Features with a single group per token are broadcast over the groups.
\<close>

definition group_out :: "real list list list \<Rightarrow> nat \<Rightarrow> real list \<Rightarrow> real list" where
  "group_out x g wg = map (\<lambda>tok. dot (if length tok = 1 then tok ! 0 else tok ! g) wg) x"

text \<open>\<^verbatim>\<open>(cur_out - org_out).pow(2).mean(dim=1)\<close> for one channel and group.\<close>

definition group_err :: "real list list list \<Rightarrow> nat \<Rightarrow> real list \<Rightarrow> real list \<Rightarrow> real" where
  "group_err x g wg qg =
     sum_list (map2 (\<lambda>cur org. (cur - org) * (cur - org)) (group_out x g qg) (group_out x g wg))
       / real (length x)"

text \<open>\<^verbatim>\<open>org_max_val = w.abs().amax(dim=-1, keepdim=True)\<close>, one value per group.\<close>

definition org_max_val :: "real list list \<Rightarrow> real list" where
  "org_max_val w = map (\<lambda>g. Max (set (map abs g))) w"

text \<open>
  One grid step \<open>i_s\<close> on a block of \<open>cb\<close> output channels, the block given as its list
  of groups: the candidate thresholds \<^verbatim>\<open>max_val\<close> and the errors \<^verbatim>\<open>err\<close> of the
  clamped and pseudo-quantized block, one per channel and group. The view of \<^verbatim>\<open>err\<close>
  as \<^verbatim>\<open>min_errs.shape\<close> fails when single-group weights were broadcast over several
  feature groups.
\<close>

definition clip_trial ::
  "config \<Rightarrow> clip_env \<Rightarrow> nat \<Rightarrow> real list list \<Rightarrow> nat \<Rightarrow> error + (real list \<times> real list)" where
  "clip_trial cfg env cb w i_s =
     (let max_val = map (\<lambda>m. m * (1 - real i_s / 20)) (org_max_val w);
          cur_w = map2 (\<lambda>g m. map (\<lambda>v. clamp v (- m) m) g) w max_val
      in case pseudo_quantize_tensor cfg
                \<lparr>shape = [cb, 1, n_group env, glen env], vals = concat cur_w\<rparr> of
           Inl e \<Rightarrow> Inl e
         | Inr (q_w, scales, zeros) \<Rightarrow>
             if feat_groups env \<noteq> n_group env \<and> n_group env = 1 then Inl TorchError
             else
               (let q = chunks (glen env) (vals q_w) in
                Inr (max_val,
                     map (\<lambda>p. group_err (feat env) (p mod n_group env) (w ! p) (q ! p))
                       [0..<length w])))"

text \<open>
  The update of the running best, per channel and group: \<^verbatim>\<open>cur_best_idx = err < min_errs\<close>,
  then \<^verbatim>\<open>min_errs\<close> and \<^verbatim>\<open>best_max_val\<close> are overwritten at those positions.
\<close>

definition clip_update ::
  "real list \<times> real list \<Rightarrow> real list \<times> real list \<Rightarrow> real list \<times> real list" where
  "clip_update st tr =
     (case st of (min_errs, best_max_val) \<Rightarrow>
        case tr of (max_val, err) \<Rightarrow>
          (map2 (\<lambda>e m. if e < m then e else m) err min_errs,
           map2 (\<lambda>(e, m) (mv, b). if e < m then mv else b)
             (zip err min_errs) (zip max_val best_max_val)))"

text \<open>The loop over the grid steps; an exception in a step ends it.\<close>

fun clip_grid ::
  "(nat \<Rightarrow> error + (real list \<times> real list)) \<Rightarrow> nat list \<Rightarrow> real list \<times> real list \<Rightarrow>
     error + (real list \<times> real list)" where
  "clip_grid trial [] st = Inr st"
| "clip_grid trial (i_s # rest) st =
     (case trial i_s of
        Inl e \<Rightarrow> Inl e
      | Inr tr \<Rightarrow> clip_grid trial rest (clip_update st tr))"

text \<open>
  The body of the loop over the blocks of output channels: \<open>wvals\<close> are the elements of
  the block. The product \<^verbatim>\<open>input_feat * w\<close> fails when the numbers of groups differ and
  neither is one.
\<close>

definition best_clip_block :: "config \<Rightarrow> clip_env \<Rightarrow> nat \<Rightarrow> real list \<Rightarrow> error + real list" where
  "best_clip_block cfg env cb wvals =
     (let w = chunks (glen env) wvals;
          min_errs = replicate (length w) 1000000000
      in if feat_groups env \<noteq> n_group env \<and> feat_groups env \<noteq> 1 \<and> n_group env \<noteq> 1
         then Inl TorchError
         else
           (case clip_grid (clip_trial cfg env cb w) [0..<10] (min_errs, org_max_val w) of
              Inl e \<Rightarrow> Inl e
            | Inr (min_errs', best_max_val) \<Rightarrow> Inr best_max_val))"

text \<open>The results of a loop whose body may raise: the first exception wins.\<close>

fun collect :: "(error + 'a) list \<Rightarrow> error + 'a list" where
  "collect [] = Inr []"
| "collect (r # rs) =
     (case r of
        Inl e \<Rightarrow> Inl e
      | Inr v \<Rightarrow> (case collect rs of Inl e \<Rightarrow> Inl e | Inr vs \<Rightarrow> Inr (v # vs)))"

text \<open>The elements of block \<open>i_b\<close>: \<^verbatim>\<open>w_all[i_b * oc_batch_size : (i_b + 1) * oc_batch_size]\<close>.\<close>

definition clip_block :: "clip_env \<Rightarrow> tensor \<Rightarrow> nat \<Rightarrow> real list" where
  "clip_block env w i_b =
     (let per_block = oc_batch_size (shape w ! 0) * n_group env * glen env in
      take per_block (drop (i_b * per_block) (vals w)))"

definition compute_best_clip :: "config \<Rightarrow> tensor \<Rightarrow> tensor \<Rightarrow> error + tensor" where
  "compute_best_clip cfg w input_feat =
     (case clip_reshape cfg w input_feat of
        Inl e \<Rightarrow> Inl e
      | Inr env \<Rightarrow>
          (let co = shape w ! 0 in
           if co mod oc_batch_size co \<noteq> 0 then Inl AssertionError
           else
             (case collect (map (\<lambda>i_b. best_clip_block cfg env (oc_batch_size co) (clip_block env w i_b))
                              [0..<co div oc_batch_size co]) of
                Inl e \<Rightarrow> Inl e
              | Inr best_max_val_all \<Rightarrow>
                  Inr \<lparr>shape = [co, n_group env, 1], vals = concat best_max_val_all\<rparr>)))"

text \<open>
  The invariant of the grid loop used below: at every position the running minimum is at
  most the error \<open>err0\<close> of the first (unclipped) candidate, and the running best
  threshold is the threshold of a grid step whose error is at most \<open>err0\<close>.
\<close>

definition clip_inv ::
  "(nat \<Rightarrow> error + (real list \<times> real list)) \<Rightarrow> nat \<Rightarrow> real list \<Rightarrow> real list \<times> real list \<Rightarrow> bool" where
  "clip_inv trial n err0 st =
     (length (fst st) = n \<and> length (snd st) = n \<and>
      (\<forall>p < n. fst st ! p \<le> err0 ! p \<and>
         (\<exists>i_s < 10. \<exists>max_val err. trial i_s = Inr (max_val, err) \<and>
            snd st ! p = max_val ! p \<and> err ! p \<le> err0 ! p)))"

section \<open>Scale search: the grid\<close>

text \<open>
  \<^verbatim>\<open>_compute_best_scale\<close>, lines 355-430, changes the weights of the inspected module in
  place and restores them from a snapshot, so the module is modelled with an explicit
  store. The entries of the module's state dict are numbered in dictionary order;
  \<open>params\<close> gives for each entry the address of the storage its parameter currently
  has, and \<open>heap\<close> holds the storages. Every parameter is assumed to have a storage of its
  own (no tied parameters).
\<close>

record module_state =
  params :: "nat list"
  heap :: "tensor list"

text \<open>\<^verbatim>\<open>module2inspect.state_dict()\<close>, as the list of the entries' current values.\<close>

definition state_dict :: "module_state \<Rightarrow> tensor list" where
  "state_dict st = map (\<lambda>a. heap st ! a) (params st)"

text \<open>The device of \<^verbatim>\<open>x\<close> and of the module: host memory, or an accelerator.\<close>

datatype device = Cpu | Accelerator

text \<open>
  \<^verbatim>\<open>org_sd = {k: v.cpu() for k, v in module2inspect.state_dict().items()}\<close>. The values of
  a state dict share the storage of the parameters, and \<^verbatim>\<open>Tensor.cpu()\<close> copies only when
  the tensor is not in host memory already: on the CPU the snapshot holds the very storages
  of the parameters, on an accelerator it holds fresh copies.
\<close>

definition snapshot :: "device \<Rightarrow> module_state \<Rightarrow> nat list \<times> module_state" where
  "snapshot dev st =
     (case dev of
        Cpu \<Rightarrow> (params st, st)
      | Accelerator \<Rightarrow>
          ([length (heap st)..<length (heap st) + length (params st)],
           st\<lparr>heap := heap st @ state_dict st\<rparr>))"

text \<open>
  \<^verbatim>\<open>module2inspect.load_state_dict(org_sd)\<close>: entry by entry, \<^verbatim>\<open>param.copy_(input_param)\<close>
  writes the snapshot's value into the storage the parameter has now.
\<close>

definition load_state_dict :: "nat list \<Rightarrow> module_state \<Rightarrow> module_state" where
  "load_state_dict org_sd st =
     st\<lparr>heap := fold (\<lambda>i h. h[params st ! i := h ! (org_sd ! i)]) [0..<length (params st)] (heap st)\<rparr>"

text \<open>
  \<^verbatim>\<open>Tensor.pow\<close> with a real exponent, for the non-negative bases the search passes
  (\<^verbatim>\<open>x_mean\<close> and \<^verbatim>\<open>w_mean\<close> are means of magnitudes): any base to the power 0 is 1.
\<close>

definition torch_pow :: "real \<Rightarrow> real \<Rightarrow> real" where
  "torch_pow x r = (if r = 0 then 1 else x powr r)"

text \<open>An element-wise operation on two vectors, with torch's broadcast of a single element.\<close>

definition broadcast2 :: "('a \<Rightarrow> 'b \<Rightarrow> 'c) \<Rightarrow> 'a list \<Rightarrow> 'b list \<Rightarrow> error + 'c list" where
  "broadcast2 f a b =
     (if length a = length b then Inr (map2 f a b)
      else if length b = 1 then Inr (map (\<lambda>x. f x (hd b)) a)
      else if length a = 1 then Inr (map (f (hd a)) b)
      else Inl TorchError)"

text \<open>
  The scales of grid step \<open>k\<close>, lines 388-401: \<^verbatim>\<open>ratio = k / n_grid\<close>, the clamped
  candidate, and the normalization by \<^verbatim>\<open>(scales.max() * scales.min()).sqrt()\<close>, which
  fails on an empty vector. The replacement of infinite and NaN entries by 1 changes
  nothing on reals.
\<close>

definition scale_candidate :: "config \<Rightarrow> real list \<Rightarrow> real list \<Rightarrow> nat \<Rightarrow> error + real list" where
  "scale_candidate cfg x_mean w_mean k =
     (let ratio = real k / 20 in
      case (if duo_scaling cfg
            then broadcast2
                   (\<lambda>x w. max (torch_pow x ratio / (torch_pow w (1 - ratio) + 1 / 10000)) (1 / 10000))
                   x_mean w_mean
            else Inr (map (\<lambda>x. max (torch_pow x ratio) (1 / 10000)) x_mean)) of
        Inl e \<Rightarrow> Inl e
      | Inr scales \<Rightarrow>
          if scales = [] then Inl TorchError
          else Inr (map (\<lambda>s. s / sqrt (Max (set scales) * Min (set scales))) scales))"

text \<open>
  A two-dimensional weight combined row by row with the vector \<^verbatim>\<open>scales_view\<close> of shape
  \<^verbatim>\<open>(1, n)\<close>; the shape of the weight must not change.
\<close>

definition scale_rows :: "(real \<Rightarrow> real \<Rightarrow> real) \<Rightarrow> tensor \<Rightarrow> real list \<Rightarrow> error + tensor" where
  "scale_rows f w scales =
     (if length scales = shape w ! 1
      then Inr (w\<lparr>vals := concat (map (\<lambda>row. map2 f row scales) (chunks (length scales) (vals w)))\<rparr>)
      else if length scales = 1 then Inr (w\<lparr>vals := map (\<lambda>v. f v (hd scales)) (vals w)\<rparr>)
      else Inl TorchError)"

text \<open>
  The trial weight of one layer, \<^verbatim>\<open>Q(W * s) / s\<close>: the value that lines 404-408 leave in
  \<^verbatim>\<open>fc.weight\<close> when the weight was \<open>w\<close>.
\<close>

definition trial_weight :: "config \<Rightarrow> real list \<Rightarrow> tensor \<Rightarrow> error + tensor" where
  "trial_weight cfg scales w =
     (case scale_rows (*) w scales of
        Inl e \<Rightarrow> Inl e
      | Inr ws \<Rightarrow>
          (case pseudo_quantize_tensor cfg ws of
             Inl e \<Rightarrow> Inl e
           | Inr (q, sc, z) \<Rightarrow> scale_rows (/) q scales))"

text \<open>
  Lines 404-408 for one layer \<open>fc\<close>, given by the number of its weight in the state dict:
  \<^verbatim>\<open>fc.weight.mul_(scales_view)\<close> writes into the storage the weight has, and the
  assignment to \<^verbatim>\<open>fc.weight.data\<close> gives the weight a new storage.
\<close>

definition scale_layer :: "config \<Rightarrow> real list \<Rightarrow> nat \<Rightarrow> module_state \<Rightarrow> error + module_state" where
  "scale_layer cfg scales fc st =
     (let a = params st ! fc in
      case scale_rows (*) (heap st ! a) scales of
        Inl e \<Rightarrow> Inl e
      | Inr ws \<Rightarrow>
          (case pseudo_quantize_tensor cfg ws of
             Inl e \<Rightarrow> Inl e
           | Inr (q, sc, z) \<Rightarrow>
               (case scale_rows (/) q scales of
                  Inl e \<Rightarrow> Inl e
                | Inr qd \<Rightarrow>
                    Inr \<lparr>params = (params st)[fc := length (heap st)],
                         heap = (heap st)[a := ws] @ [qd]\<rparr>)))"

text \<open>A \<^verbatim>\<open>for\<close> loop whose body may raise.\<close>

fun for_loop :: "('i \<Rightarrow> 's \<Rightarrow> error + 's) \<Rightarrow> 'i list \<Rightarrow> 's \<Rightarrow> error + 's" where
  "for_loop body [] s = Inr s"
| "for_loop body (i # rest) s =
     (case body i s of
        Inl e \<Rightarrow> Inl e
      | Inr s' \<Rightarrow> for_loop body rest s')"

text \<open>
  The arguments of \<^verbatim>\<open>_compute_best_scale\<close>. \<open>linears2scale\<close> lists the layers by the
  numbers of their weights in the state dict of \<^verbatim>\<open>module2inspect\<close> (the layers are
  sub-modules of the inspected module, or the module itself). \<open>forward\<close> is
  \<^verbatim>\<open>_module_forward(x, module2inspect, kwargs)\<close> as a function of the module's current
  state dict, for the fixed \<^verbatim>\<open>x\<close> and \<^verbatim>\<open>kwargs\<close>; \<open>output_element_size\<close> is the byte width of
  \<^verbatim>\<open>fp16_output\<close>'s elements; \<open>device\<close> is \<^verbatim>\<open>x.device\<close>, where the module lives.
\<close>

record search_args =
  x_mean :: "real list"
  w_mean :: "real list"
  linears2scale :: "nat list"
  forward :: "tensor list \<Rightarrow> fl list"
  fp16_output :: "fl list"
  output_element_size :: nat
  device :: device

text \<open>The local variables of the grid search, with the module.\<close>

record search_state =
  model :: module_state
  hist :: "fl list"
  best_error :: fl
  best_ratio :: real
  best_scales :: "real list option"

text \<open>The body of the loop over \<^verbatim>\<open>range(n_grid)\<close>, lines 387-421.\<close>

definition trial_step ::
  "config \<Rightarrow> search_args \<Rightarrow> nat list \<Rightarrow> nat \<Rightarrow> search_state \<Rightarrow> error + search_state" where
  "trial_step cfg args org_sd k s =
     (case scale_candidate cfg (x_mean args) (w_mean args) k of
        Inl e \<Rightarrow> Inl e
      | Inr scales \<Rightarrow>
          (case for_loop (scale_layer cfg scales) (linears2scale args) (model s) of
             Inl e \<Rightarrow> Inl e
           | Inr st \<Rightarrow>
               (case compute_loss cfg (output_element_size args) (fp16_output args)
                       (forward args (state_dict st)) of
                  Inl e \<Rightarrow> Inl e
                | Inr loss \<Rightarrow>
                    (let s1 = s\<lparr>hist := hist s @ [loss]\<rparr>;
                         s2 = (if fl_less loss (best_error s)
                               then s1\<lparr>best_error := loss, best_ratio := real k / 20,
                                       best_scales := Some scales\<rparr>
                               else s1)
                     in Inr (s2\<lparr>model := load_state_dict org_sd st\<rparr>)))))"

text \<open>
  What the search leaves behind when the loop has run through: the returned scales or
  the exception raised after the loop, the module, the loss history, and the records
  written by \<^verbatim>\<open>logging.debug\<close>.
\<close>

record search_result =
  outcome :: "error + real list"
  final :: module_state
  history :: "fl list"
  debug_log :: "fl list list"

text \<open>
  \<^verbatim>\<open>_compute_best_scale\<close>. \<open>Inl\<close> is an exception raised inside a trial. The final
  assertion that \<^verbatim>\<open>best_scales\<close> holds no NaN cannot fail on reals; \<^verbatim>\<open>best_scales\<close> is
  set whenever \<^verbatim>\<open>best_ratio\<close> is.
\<close>

definition compute_best_scale ::
  "config \<Rightarrow> search_args \<Rightarrow> module_state \<Rightarrow> error + search_result" where
  "compute_best_scale cfg args module2inspect =
     (case snapshot (device args) module2inspect of
        (org_sd, st) \<Rightarrow>
          (case for_loop (trial_step cfg args org_sd) [0..<20]
                  \<lparr>model = st, hist = [], best_error = PInf, best_ratio = - 1,
                   best_scales = None\<rparr> of
             Inl e \<Rightarrow> Inl e
           | Inr s \<Rightarrow>
               if best_ratio s = - 1
               then Inr \<lparr>outcome = Inl SearchException, final = model s, history = hist s,
                         debug_log = [hist s]\<rparr>
               else
                 (case best_scales s of
                    None \<Rightarrow> Inl TorchError
                  | Some scales \<Rightarrow>
                      Inr \<lparr>outcome = Inr scales, final = model s, history = hist s,
                           debug_log = []\<rparr>)))"

text \<open>
  The loss of grid step \<open>k\<close> evaluated on given weights \<open>d\<close> (a state dict), without any
  store: the trial weights replace the weights of the scaled layers, the module runs, and
  the loss against \<^verbatim>\<open>fp16_output\<close> is taken.
\<close>

definition scale_entry :: "config \<Rightarrow> real list \<Rightarrow> nat \<Rightarrow> tensor list \<Rightarrow> error + tensor list" where
  "scale_entry cfg scales fc d =
     (case trial_weight cfg scales (d ! fc) of
        Inl e \<Rightarrow> Inl e
      | Inr v \<Rightarrow> Inr (d[fc := v]))"

definition trial_loss :: "config \<Rightarrow> search_args \<Rightarrow> tensor list \<Rightarrow> nat \<Rightarrow> error + fl" where
  "trial_loss cfg args d k =
     (case scale_candidate cfg (x_mean args) (w_mean args) k of
        Inl e \<Rightarrow> Inl e
      | Inr scales \<Rightarrow>
          (case for_loop (scale_entry cfg scales) (linears2scale args) d of
             Inl e \<Rightarrow> Inl e
           | Inr d' \<Rightarrow>
               compute_loss cfg (output_element_size args) (fp16_output args) (forward args d')))"

text \<open>
  The invariant of the grid loop's bookkeeping: no recorded loss is \<open>-inf\<close>; as long as
  \<^verbatim>\<open>best_ratio\<close> is \<open>-1\<close> no recorded loss was below \<open>+inf\<close>; afterwards
  \<^verbatim>\<open>best_scales\<close> and \<^verbatim>\<open>best_error\<close> belong to a grid step whose loss is below
  \<open>+inf\<close> and that no recorded loss beats.
\<close>

definition book :: "config \<Rightarrow> search_args \<Rightarrow> search_state \<Rightarrow> bool" where
  "book cfg args s =
     ((\<forall>l \<in> set (hist s). l \<noteq> NInf) \<and>
      (best_ratio s = - 1 \<longrightarrow> best_error s = PInf \<and> (\<forall>l \<in> set (hist s). \<not> fl_less l PInf)) \<and>
      (best_ratio s \<noteq> - 1 \<longrightarrow>
         (\<exists>k < length (hist s). \<exists>scales.
            best_ratio s = real k / 20 \<and>
            scale_candidate cfg (x_mean args) (w_mean args) k = Inr scales \<and>
            best_scales s = Some scales \<and> best_error s = hist s ! k \<and>
            fl_less (hist s ! k) PInf \<and>
            (\<forall>j < length (hist s). \<not> fl_less (hist s ! j) (hist s ! k)))))"

text \<open>
  A well-formed module: every entry of the state dict has a storage of its own inside the
  heap.
\<close>

definition wf_module :: "module_state \<Rightarrow> bool" where
  "wf_module st = (distinct (params st) \<and> (\<forall>a \<in> set (params st). a < length (heap st)))"

text \<open>
  The snapshot \<open>org_sd\<close> holds the values \<open>V\<close> and is separate from the parameters:
  a parameter's storage is a cell of the snapshot only if it is the snapshot's cell of
  that same entry and the entry is not one of the scaled layers \<open>fcs\<close>.
\<close>

definition sep :: "nat list \<Rightarrow> tensor list \<Rightarrow> nat list \<Rightarrow> module_state \<Rightarrow> bool" where
  "sep org_sd V fcs st =
     (length (params st) = length org_sd \<and> length V = length org_sd \<and> distinct (params st) \<and>
      (\<forall>fc \<in> set fcs. fc < length org_sd) \<and>
      (\<forall>i < length org_sd.
         params st ! i < length (heap st) \<and> org_sd ! i < length (heap st) \<and>
         heap st ! (org_sd ! i) = V ! i) \<and>
      (\<forall>i < length org_sd. \<forall>j < length org_sd.
         params st ! i = org_sd ! j \<longrightarrow> i = j \<and> i \<notin> set fcs))"

text \<open>
  A worked example of the search: a module that is one linear layer with the weight
  \<open>[[0.002499, 0.009999]]\<close>, whose normalized magnitudes are
  \<open>w_mean = [0.2499, 0.9999]\<close> for groups of two, with activations of mean magnitude 1.
\<close>

definition example_module :: module_state where
  "example_module =
     \<lparr>params = [0], heap = [\<lparr>shape = [1, 2], vals = [2499 / 1000000, 9999 / 1000000]\<rparr>]\<rparr>"

definition example_args :: "device \<Rightarrow> search_args" where
  "example_args dev =
     \<lparr>x_mean = [1, 1], w_mean = [2499 / 10000, 9999 / 10000], linears2scale = [0],
      forward = (\<lambda>d. [Fin (sum_list (vals (d ! 0)))]), fp16_output = [Fin (12498 / 1000000)],
      output_element_size = 2, device = dev\<rparr>"

section \<open>Facts about the primitives\<close>






lemma clamp_within: "lo \<le> hi \<Longrightarrow> lo \<le> clamp x lo hi \<and> clamp x lo hi \<le> hi"
  by (simp add: clamp_def)


lemma min_int_le_max_int: "min_int cfg \<le> max_int cfg"
proof -
  have "(0::int) < 2 ^ w_bit cfg" and "(0::int) < 2 ^ (w_bit cfg - 1)" by simp_all
  then show ?thesis by (simp add: min_int_def max_int_def)
qed



section \<open>The rounding bound of pseudo-quantization\<close>











lemma chunks_nonempty_pos: "chunks n xs \<noteq> [] \<Longrightarrow> 0 < n"
  by (subst (asm) chunks.simps) (auto split: if_splits)



lemmas ev = pseudo_quantize_tensor_def quant_groups_def row_dequant_def row_codes_def row_zero_def
  row_scale_def max_int_def min_int_def clamp_def torch_round_def chunks.simps group_len_def
  example_config_def pseudo_quantize_codes_def Let_def




lemma row_codes_range:
  "c \<in> set (row_codes cfg row) \<Longrightarrow> min_int cfg \<le> c \<and> c \<le> max_int cfg"
  using clamp_within [OF min_int_le_max_int [of cfg]]
  by (auto simp: row_codes_def split: if_splits)

text \<open>
  Claim C6. With \<open>w_bit \<ge> 2\<close>, every integer code produced inside
  \<^verbatim>\<open>pseudo_quantize_tensor\<close> lies in \<open>[min_int, max_int]\<close>, where zero-point mode has
  \<open>min_int = 0\<close> and \<open>max_int = 2^w_bit - 1\<close>, and symmetric mode has
  \<open>max_int = 2^(w_bit-1) - 1\<close> and \<open>min_int = - max_int - 1\<close>.
\<close>

theorem quantized_codes_in_range:
  assumes wb: "2 \<le> w_bit cfg"
    and pq: "pseudo_quantize_codes cfg w = Inr codes"
    and row: "row \<in> set codes" and c: "c \<in> set row"
  shows "min_int cfg \<le> c \<and> c \<le> max_int cfg \<and>
         max_int cfg = (if zero_point cfg then 2 ^ w_bit cfg - 1 else 2 ^ (w_bit cfg - 1) - 1) \<and>
         min_int cfg = (if zero_point cfg then 0 else - max_int cfg - 1)"
proof -
  obtain rows where "quant_groups cfg w = Inr rows" and "codes = map (row_codes cfg) rows"
    using pq by (cases "quant_groups cfg w") (auto simp: pseudo_quantize_codes_def)
  then obtain r where "row = row_codes cfg r" using row by auto
  then have "min_int cfg \<le> c \<and> c \<le> max_int cfg" using c row_codes_range by simp
  then show ?thesis by (simp add: max_int_def min_int_def)
qed

text \<open>The codes of the matrix \<open>[1, 2, 3, 100]\<close> in two groups, 4 bits, zero-point mode.\<close>

theorem quantized_codes_in_range_witness:
  "2 \<le> w_bit example_config
   \<and> pseudo_quantize_codes example_config \<lparr>shape = [1, 4], vals = [1, 2, 3, 100]\<rparr> =
       Inr [[15, 15], [0, 15]]
   \<and> min_int example_config \<le> 15 \<and> (15::int) \<le> max_int example_config
   \<and> max_int example_config = 15 \<and> min_int example_config = 0"
proof -
  let ?w = "\<lparr>shape = [1, 4], vals = [1, 2, 3, 100]\<rparr>"
  have h1: "2 \<le> w_bit example_config" by (simp add: example_config_def)
  have h2: "pseudo_quantize_codes example_config ?w = Inr [[15, 15], [0, 15]]"
    by (simp add: ev)
  have h3: "[0, 15] \<in> set [[15, 15], [0, 15 :: int]]" by simp
  have h4: "(15::int) \<in> set [0, 15]" by simp
  show ?thesis
    using h1 h2 quantized_codes_in_range [OF h1 h2 h3 h4]
    by (simp add: example_config_def)
qed

section \<open>The chunked loss\<close>

lemma fl_add_assoc: "fl_add (fl_add a b) c = fl_add a (fl_add b c)"
  by (cases a; cases b; cases c) simp_all

lemma fl_add_zero_left: "fl_add (Fin 0) a = a"
  by (cases a) simp_all

lemma fl_add_zero_right: "fl_add a (Fin 0) = a"
  by (cases a) simp_all

lemma fl_sum_append: "fl_sum (xs @ ys) = fl_add (fl_sum xs) (fl_sum ys)"
  by (induction xs) (simp_all add: fl_sum_def fl_add_zero_left fl_add_assoc)

lemma loss_loop_chunks:
  "0 < k \<Longrightarrow> length a = length b \<Longrightarrow>
     loss_loop acc (zip (chunks k a) (chunks k b)) =
       Inr (fl_add acc (fl_sum (map2 (\<lambda>x y. fl_sq (fl_sub x y)) a b)))"
proof (induction k a arbitrary: b acc rule: chunks.induct)
  case (1 k a)
  show ?case
  proof (cases "a = []")
    case True
    then show ?thesis
      by (subst chunks.simps) (simp add: fl_sum_def fl_add_zero_right)
  next
    case False
    then have bne: "b \<noteq> []" using "1.prems" by auto
    have ua: "chunks k a = take k a # chunks k (drop k a)"
      using False "1.prems" by (subst chunks.simps) simp
    have ub: "chunks k b = take k b # chunks k (drop k b)"
      using bne "1.prems" by (subst chunks.simps) simp
    let ?f = "\<lambda>x y. fl_sq (fl_sub x y)"
    have sub: "chunk_sub (take k a) (take k b) = Inr (map2 fl_sub (take k a) (take k b))"
      using "1.prems" by (simp add: chunk_sub_def)
    have sq: "map fl_sq (map2 fl_sub (take k a) (take k b)) = map2 ?f (take k a) (take k b)"
      by (simp add: case_prod_unfold)
    have ih: "loss_loop acc' (zip (chunks k (drop k a)) (chunks k (drop k b))) =
        Inr (fl_add acc' (fl_sum (map2 ?f (drop k a) (drop k b))))" for acc'
      using "1.IH" [of "drop k b" acc'] False "1.prems" by simp
    have split: "map2 ?f a b = map2 ?f (take k a) (take k b) @ map2 ?f (drop k a) (drop k b)"
      by (simp add: take_zip [symmetric] drop_zip [symmetric] take_map [symmetric] drop_map [symmetric])
    show ?thesis
      unfolding ua ub
      by (simp add: sub sq ih fl_add_assoc fl_sum_append [symmetric] split [symmetric] del: map_map)
  qed
qed

text \<open>
  Claim C9. For two tensors of the same length and a positive chunk size (the one
  \<^verbatim>\<open>_compute_loss\<close> derives from \<^verbatim>\<open>max_chunk_memory\<close> and the element size), the
  chunked accumulation returns the unchunked reference \<open>sum((a - b)^2) / n\<close>, whatever
  the chunk size is.
\<close>

theorem compute_loss_chunk_independent:
  assumes len: "length a = length b"
    and es: "0 < element_size"
    and pos: "0 < min (max_chunk_memory cfg div (int element_size * 2)) (int (length a))"
  shows "compute_loss cfg element_size a b = Inr (mse_reference a b)"
proof -
  define k where "k = min (max_chunk_memory cfg div (int element_size * 2)) (int (length a))"
  have kpos: "0 < k" using pos by (simp only: k_def)
  have ane: "a \<noteq> []" and bne: "b \<noteq> []" using pos len by auto
  have sa: "torch_split k a = Inr (chunks (nat k) a)"
    and sb: "torch_split k b = Inr (chunks (nat k) b)"
    using kpos ane bne by (simp_all add: torch_split_def)
  have k: "0 < nat k" using kpos by simp
  have loop: "loss_loop (Fin 0) (zip (chunks (nat k) a) (chunks (nat k) b)) =
      Inr (fl_sum (map2 (\<lambda>x y. fl_sq (fl_sub x y)) a b))"
    using loss_loop_chunks [OF k len, of "Fin 0"] by (simp add: fl_add_zero_left)
  show ?thesis
    unfolding compute_loss_def Let_def k_def [symmetric] sa sb
    using es ane loop by (simp add: mse_reference_def)
qed

lemma map2_Fin:
  "length a = length b \<Longrightarrow>
     fl_sum (map2 (\<lambda>x y. fl_sq (fl_sub x y)) (map Fin a) (map Fin b)) =
       Fin (\<Sum>(x, y)\<leftarrow>zip a b. (x - y) * (x - y))"
  by (induction a b rule: list_induct2) (simp_all add: fl_sum_def fl_sub_def)

lemma mse_reference_finite:
  "length a = length b \<Longrightarrow>
     mse_reference (map Fin a) (map Fin b) =
       Fin ((\<Sum>(x, y)\<leftarrow>zip a b. (x - y) * (x - y)) / real (length a))"
  by (simp add: mse_reference_def map2_Fin)

lemmas ev_loss = compute_loss_def torch_split_def chunks.simps chunk_sub_def fl_sum_def
  fl_sub_def mse_reference_def example_config_def Let_def

text \<open>Five elements in chunks of two (8 bytes of chunk memory, 2-byte elements).\<close>

theorem compute_loss_chunk_independent_witness:
  "compute_loss (example_config\<lparr>max_chunk_memory := 8\<rparr>) 2
       (map Fin [1, 2, 3, 4, 5]) (map Fin [0, 0, 0, 0, 0]) =
     Inr (mse_reference (map Fin [1, 2, 3, 4, 5]) (map Fin [0, 0, 0, 0, 0]))
   \<and> mse_reference (map Fin [1, 2, 3, 4, 5]) (map Fin [0, 0, 0, 0, 0]) = Fin 11"
proof -
  have h1: "length (map Fin [1, 2, 3, 4, 5 :: real]) = length (map Fin [0, 0, 0, 0, 0 :: real])"
    by simp
  have h2: "0 < (2::nat)" by simp
  have h3: "0 < min (max_chunk_memory (example_config\<lparr>max_chunk_memory := 8\<rparr>) div (int 2 * 2))
      (int (length (map Fin [1, 2, 3, 4, 5 :: real])))"
    by simp
  show ?thesis
    using compute_loss_chunk_independent [OF h1 h2 h3]
    by (simp add: mse_reference_def fl_sum_def fl_sub_def)
qed

section \<open>Packing with an unknown version\<close>

lemma select_kernel_None:
  "select_kernel v = None \<longleftrightarrow> v \<notin> {''gemm'', ''gemv'', ''marlin'', ''gemv_fast''}"
  by (simp add: select_kernel_def)

text \<open>
  Claim C2, as amended. With a version tag that is none of \<open>gemm\<close>, \<open>gemv\<close>,
  \<open>marlin\<close>, \<open>gemv_fast\<close>, and a first linear layer whose weight pseudo-quantizes
  without error, \<^verbatim>\<open>_apply_quant\<close> raises the \<open>ValueError\<close> while it handles that
  first layer: its weight has already been replaced by the pseudo-quantized weight, every
  later layer is untouched and no module has been installed.
\<close>

theorem apply_quant_unknown_version:
  assumes "version cfg \<notin> {''gemm'', ''gemv'', ''marlin'', ''gemv_fast''}"
    and "pseudo_quantize_tensor cfg (weight linear_layer) = Inr (w, scales, zeros)"
  shows "apply_quant cfg ((name, linear_layer) # rest) ops =
           (Some (ValueError (version cfg)), (name, linear_layer\<lparr>weight := w\<rparr>) # rest, ops)"
  using assms by (simp add: select_kernel_None [symmetric] del: insert_iff)

text \<open>
  Claim C2 as stated fails: with the tag \<open>foo\<close> the weight \<open>[1, 2]\<close> of the only
  layer is \<open>[1, 1]\<close> at the moment the error is raised.
\<close>

theorem apply_quant_unknown_version_counterexample:
  "apply_quant (example_config\<lparr>version := ''foo''\<rparr>)
       [(''fc'', \<lparr>weight = \<lparr>shape = [1, 2], vals = [1, 2]\<rparr>, bias = None\<rparr>)] Map.empty =
     (Some (ValueError ''foo''),
      [(''fc'', \<lparr>weight = \<lparr>shape = [1, 2], vals = [1, 1]\<rparr>, bias = None\<rparr>)], Map.empty)
   \<and> \<lparr>shape = [1, 2], vals = [1, 1 :: real]\<rparr> \<noteq> \<lparr>shape = [1, 2], vals = [1, 2]\<rparr>"
  by (simp add: ev select_kernel_def)

text \<open>Two layers and the tag \<open>foo\<close>: the error is raised at the first one.\<close>

theorem apply_quant_unknown_version_witness:
  "''foo'' \<notin> {''gemm'', ''gemv'', ''marlin'', ''gemv_fast''}
   \<and> apply_quant (example_config\<lparr>version := ''foo''\<rparr>)
       [(''fc1'', \<lparr>weight = \<lparr>shape = [1, 2], vals = [- 1, 2]\<rparr>, bias = None\<rparr>),
        (''fc2'', \<lparr>weight = \<lparr>shape = [1, 2], vals = [1, 2]\<rparr>, bias = None\<rparr>)] Map.empty =
     (Some (ValueError ''foo''),
      [(''fc1'', \<lparr>weight = \<lparr>shape = [1, 2], vals = [- 1, 2]\<rparr>, bias = None\<rparr>),
       (''fc2'', \<lparr>weight = \<lparr>shape = [1, 2], vals = [1, 2]\<rparr>, bias = None\<rparr>)], Map.empty)"
proof -
  let ?cfg = "example_config\<lparr>version := ''foo''\<rparr>"
  let ?l = "\<lparr>weight = \<lparr>shape = [1, 2], vals = [- 1, 2]\<rparr>, bias = None\<rparr>"
  have h1: "version ?cfg \<notin> {''gemm'', ''gemv'', ''marlin'', ''gemv_fast''}" by simp
  have h2: "pseudo_quantize_tensor ?cfg (weight ?l) =
      Inr (\<lparr>shape = [1, 2], vals = [- 1, 2]\<rparr>, \<lparr>shape = [1, 1], vals = [1 / 5]\<rparr>,
           Some \<lparr>shape = [1, 1], vals = [5]\<rparr>)"
    by (simp add: ev)
  show ?thesis
    using apply_quant_unknown_version [OF h1 h2] by simp
qed


section \<open>Group sizes that are not positive\<close>

text \<open>
  Claim C3 fails in the scale search. With \<open>group_size \<le> 0\<close> the weight statistics of
  \<^verbatim>\<open>_search_best_scale\<close> never complete: \<^verbatim>\<open>weight.view(-1, self.group_size)\<close> is refused
  by torch for every layer list, while \<^verbatim>\<open>pseudo_quantize_tensor\<close> and
  \<^verbatim>\<open>_compute_best_clip\<close> guard the same case and take the whole row as one group.
\<close>

theorem compute_w_mean_nonpositive_group:
  assumes "group_size cfg \<le> 0"
  shows "compute_w_mean cfg layers = Inl TorchError"
  using assms by (simp add: compute_w_mean_def view_groups_def torch_cat0_def split: sum.splits)

text \<open>The failing input: one layer with the weight \<open>[[1, 2]]\<close> and \<open>group_size = -1\<close>.\<close>

theorem compute_w_mean_nonpositive_group_witness:
  "group_size (example_config\<lparr>group_size := - 1\<rparr>) \<le> 0
   \<and> compute_w_mean (example_config\<lparr>group_size := - 1\<rparr>)
        [\<lparr>weight = \<lparr>shape = [1, 2], vals = [1, 2]\<rparr>, bias = None\<rparr>] = Inl TorchError"
proof -
  have h: "group_size (example_config\<lparr>group_size := - 1\<rparr>) \<le> 0" by simp
  show ?thesis using h compute_w_mean_nonpositive_group [OF h] by simp
qed



text \<open>
  The sibling path: with \<open>group_size \<le> 0\<close>, \<^verbatim>\<open>pseudo_quantize_tensor\<close> succeeds on
  every non-empty two-dimensional matrix and its groups are the rows.
\<close>

lemma pseudo_quantize_whole_row:
  assumes "group_size cfg \<le> 0" and "length (shape w) = 2" and "vals w \<noteq> []"
  shows "quant_groups cfg w = Inr (chunks (shape w ! 1) (vals w))"
    and "\<exists>r. pseudo_quantize_tensor cfg w = Inr r"
  using assms by (simp_all add: quant_groups_def pseudo_quantize_tensor_def Let_def)

section \<open>Properties of the clip search\<close>

lemma collect_Inr:
  "collect rs = Inr vs \<Longrightarrow> length vs = length rs \<and> (\<forall>i < length rs. rs ! i = Inr (vs ! i))"
proof (induction rs arbitrary: vs)
  case Nil
  then show ?case by simp
next
  case (Cons r rs)
  from Cons.prems obtain v vs' where r: "r = Inr v" and c: "collect rs = Inr vs'" and vs: "vs = v # vs'"
    by (auto split: sum.splits)
  have ih: "length vs' = length rs \<and> (\<forall>i < length rs. rs ! i = Inr (vs' ! i))"
    by (rule Cons.IH [OF c])
  show ?case using ih r vs by (auto simp: nth_Cons split: nat.splits)
qed

lemma clip_trial_lengths:
  "clip_trial cfg env cb w i_s = Inr (max_val, err) \<Longrightarrow>
     length max_val = length w \<and> length err = length w"
  by (auto simp: clip_trial_def org_max_val_def Let_def split: sum.splits if_splits)

lemma clip_trial_zero:
  "clip_trial cfg env cb w 0 = Inr (max_val, err) \<Longrightarrow> max_val = org_max_val w"
  by (auto simp: clip_trial_def Let_def split: sum.splits if_splits)

lemma clip_update_nth:
  assumes "p < length min_errs" "length best = length min_errs"
    "length max_val = length min_errs" "length err = length min_errs"
  shows "fst (clip_update (min_errs, best) (max_val, err)) ! p =
           (if err ! p < min_errs ! p then err ! p else min_errs ! p)"
    and "snd (clip_update (min_errs, best) (max_val, err)) ! p =
           (if err ! p < min_errs ! p then max_val ! p else best ! p)"
    and "length (fst (clip_update (min_errs, best) (max_val, err))) = length min_errs"
    and "length (snd (clip_update (min_errs, best) (max_val, err))) = length min_errs"
  using assms by (simp_all add: clip_update_def)

lemma clip_inv_step:
  assumes inv: "clip_inv trial n err0 st"
    and i: "i_s < 10" and tr: "trial i_s = Inr (max_val, err)"
    and len: "length max_val = n" "length err = n"
  shows "clip_inv trial n err0 (clip_update st (max_val, err))"
proof -
  obtain min_errs best where st: "st = (min_errs, best)" by (cases st)
  have l: "length min_errs = n" "length best = n" using inv st by (simp_all add: clip_inv_def)
  {
    fix p assume p: "p < n"
    have pl: "p < length min_errs" using p l by simp
    note nth = clip_update_nth [OF pl, of best max_val err]
    have old: "min_errs ! p \<le> err0 ! p"
      "\<exists>j < 10. \<exists>mv e. trial j = Inr (mv, e) \<and> best ! p = mv ! p \<and> e ! p \<le> err0 ! p"
      using inv st p by (auto simp: clip_inv_def)
    have "fst (clip_update st (max_val, err)) ! p \<le> err0 ! p \<and>
         (\<exists>j < 10. \<exists>mv e. trial j = Inr (mv, e) \<and>
            snd (clip_update st (max_val, err)) ! p = mv ! p \<and> e ! p \<le> err0 ! p)"
    proof (cases "err ! p < min_errs ! p")
      case True
      have "err ! p \<le> err0 ! p" using True old(1) by linarith
      then show ?thesis using True nth(1,2) l len st i tr by auto
    next
      case False
      then show ?thesis using nth(1,2) l len st old by auto
    qed
  }
  moreover have "length (fst (clip_update st (max_val, err))) = n"
    "length (snd (clip_update st (max_val, err))) = n"
    using l len st by (simp_all add: clip_update_def)
  ultimately show ?thesis by (simp add: clip_inv_def)
qed

lemma clip_grid_inv:
  assumes "clip_grid trial steps st = Inr st'"
    and "clip_inv trial n err0 st"
    and "\<forall>i_s \<in> set steps. i_s < 10"
    and "\<And>i_s max_val err. trial i_s = Inr (max_val, err) \<Longrightarrow> length max_val = n \<and> length err = n"
  shows "clip_inv trial n err0 st'"
  using assms
proof (induction steps arbitrary: st)
  case Nil
  then show ?case by simp
next
  case (Cons i_s steps)
  from Cons.prems(1) obtain max_val err where tr: "trial i_s = Inr (max_val, err)"
    and rest: "clip_grid trial steps (clip_update st (max_val, err)) = Inr st'"
    by (auto split: sum.splits)
  have len: "length max_val = n" "length err = n" using Cons.prems(4) [OF tr] by simp_all
  have "i_s < 10" using Cons.prems(3) by simp
  then have "clip_inv trial n err0 (clip_update st (max_val, err))"
    using clip_inv_step [OF Cons.prems(2) _ tr len] by simp
  then show ?case using Cons.IH [OF rest] Cons.prems(3,4) by simp
qed

lemma clip_inv_first:
  assumes tr: "trial 0 = Inr (max_val0, err0)"
    and len: "length max_val0 = n" "length err0 = n"
  shows "clip_inv trial n err0 (clip_update (replicate n 1000000000, max_val0) (max_val0, err0))"
proof -
  let ?st = "(replicate n (1000000000::real), max_val0)"
  {
    fix p assume p: "p < n"
    have pl: "p < length (replicate n (1000000000::real))" using p by simp
    have l: "length max_val0 = length (replicate n (1000000000::real))"
      "length err0 = length (replicate n (1000000000::real))" using len by simp_all
    note nth = clip_update_nth [OF pl l(1) l(1) l(2)]
    have a: "fst (clip_update ?st (max_val0, err0)) ! p \<le> err0 ! p"
      using nth(1) p by simp
    have "snd (clip_update ?st (max_val0, err0)) ! p = max_val0 ! p"
      using nth(2) by simp
    then have "\<exists>mv e. trial 0 = Inr (mv, e) \<and>
            snd (clip_update ?st (max_val0, err0)) ! p = mv ! p \<and> e ! p \<le> err0 ! p"
      using tr by simp
    then have "\<exists>j < 10. \<exists>mv e. trial j = Inr (mv, e) \<and>
            snd (clip_update ?st (max_val0, err0)) ! p = mv ! p \<and> e ! p \<le> err0 ! p"
      by (intro exI [of _ "0::nat"]) simp
    with a have "fst (clip_update ?st (max_val0, err0)) ! p \<le> err0 ! p \<and>
         (\<exists>j < 10. \<exists>mv e. trial j = Inr (mv, e) \<and>
            snd (clip_update ?st (max_val0, err0)) ! p = mv ! p \<and> e ! p \<le> err0 ! p)"
      by simp
  }
  moreover have "length (fst (clip_update ?st (max_val0, err0))) = n"
    "length (snd (clip_update ?st (max_val0, err0))) = n"
    using len by (simp_all add: clip_update_def)
  ultimately show ?thesis by (simp add: clip_inv_def)
qed

lemma best_clip_block_inv:
  assumes "best_clip_block cfg env cb wvals = Inr best"
  shows "\<exists>max_val0 err0. clip_trial cfg env cb (chunks (glen env) wvals) 0 = Inr (max_val0, err0) \<and>
     length best = length (chunks (glen env) wvals) \<and>
     (\<forall>p < length best. \<exists>i_s < 10. \<exists>max_val err.
        clip_trial cfg env cb (chunks (glen env) wvals) i_s = Inr (max_val, err) \<and>
        best ! p = max_val ! p \<and> err ! p \<le> err0 ! p)"
proof -
  let ?w = "chunks (glen env) wvals"
  let ?trial = "clip_trial cfg env cb ?w"
  let ?n = "length ?w"
  from assms obtain min_errs where grid:
    "clip_grid ?trial [0..<10] (replicate ?n 1000000000, org_max_val ?w) = Inr (min_errs, best)"
    by (auto simp: best_clip_block_def Let_def split: if_splits sum.splits)
  have upt: "[0..<10] = 0 # [1..<10]" by (simp add: upt_conv_Cons)
  from grid obtain max_val0 err0 where tr0: "?trial 0 = Inr (max_val0, err0)"
    and rest: "clip_grid ?trial [1..<10]
        (clip_update (replicate ?n 1000000000, org_max_val ?w) (max_val0, err0)) = Inr (min_errs, best)"
    unfolding upt by (auto split: sum.splits)
  have mv0: "max_val0 = org_max_val ?w" by (rule clip_trial_zero [OF tr0])
  have len0: "length max_val0 = ?n" "length err0 = ?n" using clip_trial_lengths [OF tr0] by simp_all
  have inv1: "clip_inv ?trial ?n err0
      (clip_update (replicate ?n 1000000000, org_max_val ?w) (max_val0, err0))"
    using clip_inv_first [of "?trial" max_val0 err0 ?n, OF tr0 len0] mv0 by simp
  have lens: "\<And>i_s max_val err. ?trial i_s = Inr (max_val, err) \<Longrightarrow>
      length max_val = ?n \<and> length err = ?n"
    using clip_trial_lengths by blast
  have "clip_inv ?trial ?n err0 (min_errs, best)"
    by (rule clip_grid_inv [OF rest inv1 _ lens]) auto
  then show ?thesis using tr0 by (auto simp: clip_inv_def)
qed

lemma clip_update_never_worse:
  assumes "p < length min_errs" "length best = length min_errs"
    "length max_val = length min_errs" "length err = length min_errs"
  shows "fst (clip_update (min_errs, best) (max_val, err)) ! p \<le> min_errs ! p"
    and "snd (clip_update (min_errs, best) (max_val, err)) ! p \<noteq> best ! p \<Longrightarrow> err ! p < min_errs ! p"
  using clip_update_nth [OF assms] by (auto split: if_splits)

text \<open>
  Claim C4. When the clip search returns, its result is the concatenation of the results
  of the blocks of output channels, and every returned threshold (one per channel and
  group) is the threshold \<^verbatim>\<open>max_val\<close> of one of the ten grid steps whose measured error
  \<^verbatim>\<open>err\<close> at that channel and group is at most the error measured there for grid step 0,
  the unclipped candidate. Moreover an update of the running best never raises the running
  minimum, and it replaces a threshold only by one with a strictly smaller error.
\<close>

theorem clip_search_never_worse_than_unclipped:
  assumes ok: "compute_best_clip cfg w input_feat = Inr best"
    and env: "clip_reshape cfg w input_feat = Inr env"
  shows "(\<exists>bs. vals best = concat bs \<and>
           length bs = shape w ! 0 div oc_batch_size (shape w ! 0) \<and>
           (\<forall>i_b < length bs. \<forall>p < length (bs ! i_b).
              \<exists>i_s < 10. \<exists>max_val err max_val0 err0.
                clip_trial cfg env (oc_batch_size (shape w ! 0))
                    (chunks (glen env) (clip_block env w i_b)) i_s = Inr (max_val, err) \<and>
                clip_trial cfg env (oc_batch_size (shape w ! 0))
                    (chunks (glen env) (clip_block env w i_b)) 0 = Inr (max_val0, err0) \<and>
                bs ! i_b ! p = max_val ! p \<and> err ! p \<le> err0 ! p)) \<and>
         (\<forall>min_errs best_max_val max_val err p.
            p < length min_errs \<and> length best_max_val = length min_errs \<and>
            length max_val = length min_errs \<and> length err = length min_errs \<longrightarrow>
            fst (clip_update (min_errs, best_max_val) (max_val, err)) ! p \<le> min_errs ! p \<and>
            (snd (clip_update (min_errs, best_max_val) (max_val, err)) ! p \<noteq> best_max_val ! p
               \<longrightarrow> err ! p < min_errs ! p))"
proof -
  let ?co = "shape w ! 0"
  let ?cb = "oc_batch_size ?co"
  let ?rs = "map (\<lambda>i_b. best_clip_block cfg env ?cb (clip_block env w i_b)) [0..<?co div ?cb]"
  from ok env obtain bs where c: "collect ?rs = Inr bs" and b: "vals best = concat bs"
    by (auto simp: compute_best_clip_def Let_def split: if_splits sum.splits)
  have len: "length bs = ?co div ?cb" and each: "\<forall>i < length ?rs. ?rs ! i = Inr (bs ! i)"
    using collect_Inr [OF c] by simp_all
  {
    fix i_b p assume ib: "i_b < length bs" and p: "p < length (bs ! i_b)"
    have "best_clip_block cfg env ?cb (clip_block env w i_b) = Inr (bs ! i_b)"
      using each ib len by simp
    from best_clip_block_inv [OF this] p
    have "\<exists>i_s < 10. \<exists>max_val err max_val0 err0.
        clip_trial cfg env ?cb (chunks (glen env) (clip_block env w i_b)) i_s = Inr (max_val, err) \<and>
        clip_trial cfg env ?cb (chunks (glen env) (clip_block env w i_b)) 0 = Inr (max_val0, err0) \<and>
        bs ! i_b ! p = max_val ! p \<and> err ! p \<le> err0 ! p"
      by blast
  }
  then have first: "\<exists>bs. vals best = concat bs \<and>
           length bs = shape w ! 0 div oc_batch_size (shape w ! 0) \<and>
           (\<forall>i_b < length bs. \<forall>p < length (bs ! i_b).
              \<exists>i_s < 10. \<exists>max_val err max_val0 err0.
                clip_trial cfg env (oc_batch_size (shape w ! 0))
                    (chunks (glen env) (clip_block env w i_b)) i_s = Inr (max_val, err) \<and>
                clip_trial cfg env (oc_batch_size (shape w ! 0))
                    (chunks (glen env) (clip_block env w i_b)) 0 = Inr (max_val0, err0) \<and>
                bs ! i_b ! p = max_val ! p \<and> err ! p \<le> err0 ! p)"
    using b len by blast
  show ?thesis using first clip_update_never_worse by blast
qed

text \<open>
  Claim C10. The block size is 256 when 256 divides the number of output channels and 64
  otherwise. When the number of output channels is not a multiple of 64 the clip search
  never returns a result, and when the weight and the features pass the reshapes the
  exception is the assertion failure of \<^verbatim>\<open>assert org_w_shape[0] % oc_batch_size == 0\<close>.
\<close>

theorem clip_requires_multiple_of_64:
  assumes "shape w ! 0 mod 64 \<noteq> 0"
  shows "(\<exists>e. compute_best_clip cfg w input_feat = Inl e) \<and>
         (\<forall>env. clip_reshape cfg w input_feat = Inr env \<longrightarrow>
            compute_best_clip cfg w input_feat = Inl AssertionError) \<and>
         oc_batch_size (shape w ! 0) = 64"
proof -
  have "shape w ! 0 mod 256 \<noteq> 0" using assms by presburger
  then have o: "oc_batch_size (shape w ! 0) = 64" by (simp add: oc_batch_size_def)
  show ?thesis using assms o
    by (cases "clip_reshape cfg w input_feat") (simp_all add: compute_best_clip_def Let_def)
qed

lemma oc_batch_size_256: "co mod 256 = 0 \<Longrightarrow> oc_batch_size co = 256"
  by (simp add: oc_batch_size_def)


lemma clip_trial_succeeds:
  assumes "0 < group_size cfg" "glen env = nat (group_size cfg)" "0 < cb"
    and "feat_groups env = n_group env"
  shows "\<exists>tr. clip_trial cfg env cb w i_s = Inr tr"
  using assms
  by (simp add: clip_trial_def pseudo_quantize_tensor_def quant_groups_def Let_def)

lemma clip_grid_succeeds:
  "\<forall>i_s \<in> set steps. \<exists>tr. trial i_s = Inr tr \<Longrightarrow> \<exists>st'. clip_grid trial steps st = Inr st'"
proof (induction steps arbitrary: st)
  case Nil
  show ?case by simp
next
  case (Cons i_s steps)
  obtain tr where tr: "trial i_s = Inr tr" using Cons.prems by auto
  have "\<exists>st'. clip_grid trial steps (clip_update st tr) = Inr st'"
    by (rule Cons.IH) (use Cons.prems in simp)
  then show ?case using tr by simp
qed

lemma best_clip_block_succeeds:
  assumes "0 < group_size cfg" "glen env = nat (group_size cfg)" "0 < cb"
    and "feat_groups env = n_group env"
  shows "\<exists>best. best_clip_block cfg env cb wvals = Inr best"
proof -
  let ?w = "chunks (glen env) wvals"
  have "\<forall>i_s \<in> set [0..<10]. \<exists>tr. clip_trial cfg env cb ?w i_s = Inr tr"
    using clip_trial_succeeds [OF assms] by blast
  from clip_grid_succeeds [OF this]
  obtain st' where "clip_grid (clip_trial cfg env cb ?w) [0..<10]
      (replicate (length ?w) 1000000000, org_max_val ?w) = Inr st'"
    by blast
  then show ?thesis using assms(4)
    by (cases st') (simp add: best_clip_block_def Let_def)
qed

lemma collect_succeeds:
  "\<forall>r \<in> set rs. \<exists>v. r = Inr v \<Longrightarrow> \<exists>vs. collect rs = Inr vs"
  by (induction rs) auto

text \<open>
  The clip search returns whenever the group size is positive, the reshapes succeed, the
  features have as many groups per token as a weight row, and the number of output
  channels is a multiple of the block size.
\<close>

lemma compute_best_clip_succeeds:
  assumes env: "clip_reshape cfg w input_feat = Inr env"
    and gs: "0 < group_size cfg"
    and co: "shape w ! 0 mod oc_batch_size (shape w ! 0) = 0"
    and fg: "feat_groups env = n_group env"
  shows "\<exists>best. compute_best_clip cfg w input_feat = Inr best"
proof -
  let ?co = "shape w ! 0"
  let ?cb = "oc_batch_size ?co"
  have g: "glen env = nat (group_size cfg)"
    using env gs by (auto simp: clip_reshape_def Let_def split: if_splits)
  have cb: "0 < ?cb" by (simp add: oc_batch_size_def)
  have "\<forall>r \<in> set (map (\<lambda>i_b. best_clip_block cfg env ?cb (clip_block env w i_b)) [0..<?co div ?cb]).
      \<exists>v. r = Inr v"
    using best_clip_block_succeeds [OF gs g cb fg] by auto
  from collect_succeeds [OF this] obtain vs where
    "collect (map (\<lambda>i_b. best_clip_block cfg env ?cb (clip_block env w i_b)) [0..<?co div ?cb]) = Inr vs"
    by blast
  then show ?thesis using env co by (simp add: compute_best_clip_def Let_def)
qed

lemmas ev_clip = clip_reshape_def chunks.simps example_config_def Let_def

text \<open>
  A weight with 64 output channels \<open>[-1, 3]\<close> and two feature tokens: the search
  returns, in one block.
\<close>

theorem clip_search_never_worse_than_unclipped_witness:
  "\<exists>best bs.
     compute_best_clip example_config
         \<lparr>shape = [64, 2], vals = concat (replicate 64 [- 1, 3])\<rparr>
         \<lparr>shape = [2, 2], vals = [1, 1, 2, - 1]\<rparr> = Inr best \<and>
     clip_reshape example_config
         \<lparr>shape = [64, 2], vals = concat (replicate 64 [- 1, 3])\<rparr>
         \<lparr>shape = [2, 2], vals = [1, 1, 2, - 1]\<rparr> =
       Inr \<lparr>feat = [[[1, 1]], [[2, - 1]]], feat_groups = 1, glen = 2, n_group = 1\<rparr> \<and>
     vals best = concat bs \<and> length bs = 1 \<and>
     (\<forall>p < length (bs ! 0).
        \<exists>i_s < 10. \<exists>max_val err max_val0 err0.
          clip_trial example_config
              \<lparr>feat = [[[1, 1]], [[2, - 1]]], feat_groups = 1, glen = 2, n_group = 1\<rparr> 64
              (chunks 2 (concat (replicate 64 [- 1, 3]))) i_s = Inr (max_val, err) \<and>
          clip_trial example_config
              \<lparr>feat = [[[1, 1]], [[2, - 1]]], feat_groups = 1, glen = 2, n_group = 1\<rparr> 64
              (chunks 2 (concat (replicate 64 [- 1, 3]))) 0 = Inr (max_val0, err0) \<and>
          bs ! 0 ! p = max_val ! p \<and> err ! p \<le> err0 ! p)"
proof -
  let ?w = "\<lparr>shape = [64, 2], vals = concat (replicate 64 [- 1, 3 :: real])\<rparr>"
  let ?x = "\<lparr>shape = [2, 2], vals = [1, 1, 2, - 1 :: real]\<rparr>"
  let ?env = "\<lparr>feat = [[[1, 1]], [[2, - 1 :: real]]], feat_groups = 1, glen = 2, n_group = 1\<rparr>"
  have env: "clip_reshape example_config ?w ?x = Inr ?env"
    by (simp add: ev_clip length_concat sum_list_replicate)
  have gs: "0 < group_size example_config" by (simp add: example_config_def)
  have co: "shape ?w ! 0 mod oc_batch_size (shape ?w ! 0) = 0" by (simp add: oc_batch_size_def)
  have fg: "feat_groups ?env = n_group ?env" by simp
  obtain best where ok: "compute_best_clip example_config ?w ?x = Inr best"
    using compute_best_clip_succeeds [OF env gs co fg] by blast
  have blk: "clip_block ?env ?w 0 = concat (replicate 64 [- 1, 3])"
    by (simp add: clip_block_def oc_batch_size_def length_concat sum_list_replicate)
  from clip_search_never_worse_than_unclipped [OF ok env]
  obtain bs where bs: "vals best = concat bs" "length bs = 1"
    "\<forall>i_b < length bs. \<forall>p < length (bs ! i_b).
        \<exists>i_s < 10. \<exists>max_val err max_val0 err0.
          clip_trial example_config ?env (oc_batch_size (shape ?w ! 0))
              (chunks (glen ?env) (clip_block ?env ?w i_b)) i_s = Inr (max_val, err) \<and>
          clip_trial example_config ?env (oc_batch_size (shape ?w ! 0))
              (chunks (glen ?env) (clip_block ?env ?w i_b)) 0 = Inr (max_val0, err0) \<and>
          bs ! i_b ! p = max_val ! p \<and> err ! p \<le> err0 ! p"
    by (auto simp: oc_batch_size_def)
  have "\<forall>p < length (bs ! 0).
        \<exists>i_s < 10. \<exists>max_val err max_val0 err0.
          clip_trial example_config ?env 64 (chunks 2 (concat (replicate 64 [- 1, 3]))) i_s
            = Inr (max_val, err) \<and>
          clip_trial example_config ?env 64 (chunks 2 (concat (replicate 64 [- 1, 3]))) 0
            = Inr (max_val0, err0) \<and>
          bs ! 0 ! p = max_val ! p \<and> err ! p \<le> err0 ! p"
    using bs(2,3) blk by (simp add: oc_batch_size_def)
  then show ?thesis using ok env bs(1,2) by blast
qed

text \<open>Three output channels: the assertion fails.\<close>

theorem clip_requires_multiple_of_64_witness:
  "compute_best_clip example_config \<lparr>shape = [3, 2], vals = [1, 2, 3, 4, 5, 6]\<rparr>
       \<lparr>shape = [1, 2], vals = [1, 1]\<rparr> = Inl AssertionError
   \<and> clip_reshape example_config \<lparr>shape = [3, 2], vals = [1, 2, 3, 4, 5, 6]\<rparr>
       \<lparr>shape = [1, 2], vals = [1, 1]\<rparr> =
       Inr \<lparr>feat = [[[1, 1]]], feat_groups = 1, glen = 2, n_group = 1\<rparr>
   \<and> oc_batch_size 3 = 64"
proof -
  let ?w = "\<lparr>shape = [3, 2], vals = [1, 2, 3, 4, 5, 6 :: real]\<rparr>"
  let ?x = "\<lparr>shape = [1, 2], vals = [1, 1 :: real]\<rparr>"
  have h: "shape ?w ! 0 mod 64 \<noteq> 0" by simp
  have env: "clip_reshape example_config ?w ?x =
      Inr \<lparr>feat = [[[1, 1]]], feat_groups = 1, glen = 2, n_group = 1\<rparr>"
    by (simp add: ev_clip)
  show ?thesis
    using clip_requires_multiple_of_64 [OF h, of example_config ?x] env by simp
qed


text \<open>
  With \<open>group_size \<le> 0\<close> the clip search never returns either: inside the grid loop
  \<^verbatim>\<open>pseudo_quantize_tensor\<close> receives the four-dimensional block, does not reshape it and
  fails its assertion \<^verbatim>\<open>w.dim() == 2\<close>.
\<close>

lemma clip_trial_nonpositive_group:
  "group_size cfg \<le> 0 \<Longrightarrow> clip_trial cfg env cb w i_s = Inl AssertionError"
  by (simp add: clip_trial_def pseudo_quantize_tensor_def quant_groups_def Let_def)

lemma best_clip_block_nonpositive_group:
  "group_size cfg \<le> 0 \<Longrightarrow> \<exists>e. best_clip_block cfg env cb wvals = Inl e"
  by (simp add: best_clip_block_def Let_def upt_conv_Cons clip_trial_nonpositive_group)

lemma compute_best_clip_nonpositive_group:
  assumes "group_size cfg \<le> 0"
  shows "\<exists>e. compute_best_clip cfg w input_feat = Inl e"
proof (cases "clip_reshape cfg w input_feat")
  case (Inl e)
  then show ?thesis by (simp add: compute_best_clip_def)
next
  case (Inr env)
  let ?co = "shape w ! 0"
  let ?cb = "oc_batch_size ?co"
  show ?thesis
  proof (cases "?co mod ?cb = 0")
    case False
    then show ?thesis using Inr by (simp add: compute_best_clip_def Let_def)
  next
    case True
    have "?co \<noteq> 0" using Inr by (auto simp: clip_reshape_def Let_def split: if_splits)
    moreover have "0 < ?cb" by (simp add: oc_batch_size_def)
    ultimately have "0 < ?co div ?cb" using True by (simp add: div_greater_zero_iff mod_eq_0_iff_dvd dvd_imp_le)
    then have upt: "[0..<?co div ?cb] = 0 # [1..<?co div ?cb]" by (simp add: upt_conv_Cons)
    obtain e where "best_clip_block cfg env ?cb (clip_block env w 0) = Inl e"
      using best_clip_block_nonpositive_group [OF assms] by blast
    then show ?thesis using Inr True upt by (simp add: compute_best_clip_def Let_def)
  qed
qed

section \<open>Properties of the scale search: bookkeeping\<close>

lemma for_loop_upt_inv:
  assumes "for_loop body [m..<n] s = Inr s'"
    and "P m s"
    and "\<And>k t t'. m \<le> k \<Longrightarrow> k < n \<Longrightarrow> P k t \<Longrightarrow> body k t = Inr t' \<Longrightarrow> P (Suc k) t'"
    and "m \<le> n"
  shows "P n s'"
  using assms
proof (induction "n - m" arbitrary: m s)
  case 0
  then show ?case by simp
next
  case (Suc d)
  then have lt: "m < n" by simp
  then have upt: "[m..<n] = m # [Suc m..<n]" by (simp add: upt_conv_Cons)
  from Suc.prems(1) obtain t where b: "body m s = Inr t"
    and rest: "for_loop body [Suc m..<n] t = Inr s'"
    unfolding upt by (auto split: sum.splits)
  have P1: "P (Suc m) t" using Suc.prems(3) [OF _ lt Suc.prems(2) b] by simp
  have d: "d = n - Suc m" using Suc.hyps(2) by simp
  show ?case
  proof (rule Suc.hyps(1) [OF d rest P1])
    show "Suc m \<le> n" using lt by simp
  next
    fix k t t' assume "Suc m \<le> k" "k < n" "P k t" "body k t = Inr t'"
    then show "P (Suc k) t'" using Suc.prems(3) [of k t t'] by simp
  qed
qed

lemma for_loop_error:
  assumes "for_loop body steps s = Inl e"
    and "\<And>i t e'. body i t = Inl e' \<Longrightarrow> Q e'"
  shows "Q e"
  using assms by (induction steps arbitrary: s) (auto split: sum.splits)

lemma fl_less_trans: "fl_less a b \<Longrightarrow> fl_less b c \<Longrightarrow> fl_less a c"
  by (cases a; cases b; cases c) simp_all

lemma fl_less_PInf: "l \<noteq> NInf \<Longrightarrow> fl_less l PInf \<longleftrightarrow> fl_finite l"
  by (cases l) simp_all

lemma fl_add_not_NInf: "a \<noteq> NInf \<Longrightarrow> b \<noteq> NInf \<Longrightarrow> fl_add a b \<noteq> NInf"
  by (cases a; cases b) simp_all

lemma fl_sum_sq_not_NInf: "fl_sum (map fl_sq xs) \<noteq> NInf"
proof (induction xs)
  case Nil
  show ?case by (simp add: fl_sum_def)
next
  case (Cons x xs)
  have "fl_sq x \<noteq> NInf" by (cases x) simp_all
  then show ?case using Cons fl_add_not_NInf by (simp add: fl_sum_def)
qed

lemma loss_loop_not_NInf:
  "loss_loop acc cs = Inr l \<Longrightarrow> acc \<noteq> NInf \<Longrightarrow> l \<noteq> NInf"
proof (induction cs arbitrary: acc)
  case Nil
  then show ?case by simp
next
  case (Cons c cs)
  obtain a b where c: "c = (a, b)" by (cases c)
  from Cons.prems c obtain d where d: "chunk_sub a b = Inr d"
    and rest: "loss_loop (fl_add acc (fl_sum (map fl_sq d))) cs = Inr l"
    by (auto split: sum.splits)
  have "fl_add acc (fl_sum (map fl_sq d)) \<noteq> NInf"
    using Cons.prems(2) fl_sum_sq_not_NInf by (rule fl_add_not_NInf)
  then show ?case using Cons.IH [OF rest] by simp
qed

lemma fl_div_not_NInf: "l \<noteq> NInf \<Longrightarrow> fl_div l n \<noteq> NInf"
  by (cases l) simp_all

lemma compute_loss_Inr:
  assumes h: "compute_loss cfg es a b = Inr l"
  obtains acc cs where "loss_loop (Fin 0) cs = Inr acc" "l = fl_div acc (length a)" "a \<noteq> []"
proof (cases "es = 0")
  case True
  then show ?thesis using h by (simp add: compute_loss_def)
next
  case es: False
  let ?k = "min (max_chunk_memory cfg div (int es * 2)) (int (length a))"
  show ?thesis
  proof (cases "torch_split ?k a")
    case (Inl e1)
    then show ?thesis using h es by (simp add: compute_loss_def Let_def)
  next
    case ca: (Inr ca)
    show ?thesis
    proof (cases "torch_split ?k b")
      case (Inl e1)
      then show ?thesis using h es ca by (simp add: compute_loss_def Let_def)
    next
      case cb: (Inr cb)
      show ?thesis
      proof (cases "loss_loop (Fin 0) (zip ca cb)")
        case (Inl e1)
        then show ?thesis using h es ca cb by (simp add: compute_loss_def Let_def)
      next
        case (Inr acc)
        have "a \<noteq> [] \<and> l = fl_div acc (length a)"
          using h es ca cb Inr by (simp add: compute_loss_def Let_def split: if_splits)
        then show ?thesis using that Inr by blast
      qed
    qed
  qed
qed

lemma compute_loss_not_NInf:
  assumes "compute_loss cfg es a b = Inr l"
  shows "l \<noteq> NInf"
proof -
  from assms obtain acc cs where "loss_loop (Fin 0) cs = Inr acc" and l: "l = fl_div acc (length a)"
    by (rule compute_loss_Inr)
  then have "acc \<noteq> NInf" using loss_loop_not_NInf by blast
  then show ?thesis using l fl_div_not_NInf by simp
qed

lemma chunk_sub_error: "chunk_sub a b = Inl e \<Longrightarrow> e = TorchError"
  by (simp add: chunk_sub_def split: if_splits)

lemma loss_loop_error: "loss_loop acc cs = Inl e \<Longrightarrow> e = TorchError"
proof (induction cs arbitrary: acc)
  case Nil
  then show ?case by simp
next
  case (Cons c cs)
  obtain a b where c: "c = (a, b)" by (cases c)
  show ?case
  proof (cases "chunk_sub a b")
    case (Inl e1)
    then have "e = e1" using Cons.prems c by simp
    then show ?thesis using chunk_sub_error [OF Inl] by simp
  next
    case (Inr d)
    then show ?thesis using Cons.prems c Cons.IH by simp
  qed
qed

lemma torch_split_error: "torch_split k xs = Inl e \<Longrightarrow> e = TorchError"
  by (simp add: torch_split_def split: if_splits)

lemma compute_loss_error:
  assumes h: "compute_loss cfg es a b = Inl e"
  shows "e \<noteq> SearchException"
proof (cases "es = 0")
  case True
  then show ?thesis using h by (simp add: compute_loss_def)
next
  case es: False
  let ?k = "min (max_chunk_memory cfg div (int es * 2)) (int (length a))"
  show ?thesis
  proof (cases "torch_split ?k a")
    case (Inl e1)
    then have "e = e1" using h es by (simp add: compute_loss_def Let_def)
    then show ?thesis using torch_split_error [OF Inl] by simp
  next
    case ca: (Inr ca)
    show ?thesis
    proof (cases "torch_split ?k b")
      case (Inl e1)
      then have "e = e1" using h es ca by (simp add: compute_loss_def Let_def)
      then show ?thesis using torch_split_error [OF Inl] by simp
    next
      case cb: (Inr cb)
      show ?thesis
      proof (cases "loss_loop (Fin 0) (zip ca cb)")
        case (Inl e1)
        then have "e = e1" using h es ca cb by (simp add: compute_loss_def Let_def)
        then show ?thesis using loss_loop_error [OF Inl] by simp
      next
        case (Inr l)
        then have "e = ZeroDivisionError"
          using h es ca cb by (simp add: compute_loss_def Let_def split: if_splits)
        then show ?thesis by simp
      qed
    qed
  qed
qed

lemma quant_groups_error: "quant_groups cfg w = Inl e \<Longrightarrow> e \<noteq> SearchException"
  by (simp add: quant_groups_def split: if_splits)

lemma pseudo_quantize_error:
  assumes "pseudo_quantize_tensor cfg w = Inl e"
  shows "e \<noteq> SearchException"
proof (cases "quant_groups cfg w")
  case (Inl e1)
  then have "e = e1" using assms by (simp add: pseudo_quantize_tensor_def)
  then show ?thesis using quant_groups_error [OF Inl] by simp
next
  case (Inr rows)
  then show ?thesis using assms by (simp add: pseudo_quantize_tensor_def Let_def)
qed

lemma scale_rows_error: "scale_rows f w s = Inl e \<Longrightarrow> e \<noteq> SearchException"
  by (simp add: scale_rows_def split: if_splits)

lemma scale_layer_error:
  assumes h: "scale_layer cfg scales fc st = Inl e"
  shows "e \<noteq> SearchException"
proof (cases "scale_rows (*) (heap st ! (params st ! fc)) scales")
  case (Inl e1)
  then have "e = e1" using h by (simp add: scale_layer_def Let_def)
  then show ?thesis using scale_rows_error [OF Inl] by simp
next
  case ws: (Inr ws)
  show ?thesis
  proof (cases "pseudo_quantize_tensor cfg ws")
    case (Inl e1)
    then have "e = e1" using h ws by (simp add: scale_layer_def Let_def)
    then show ?thesis using pseudo_quantize_error [OF Inl] by simp
  next
    case (Inr r)
    obtain q sc z where r: "r = (q, sc, z)" by (cases r)
    show ?thesis
    proof (cases "scale_rows (/) q scales")
      case (Inl e1)
      then have "e = e1" using h ws Inr r by (simp add: scale_layer_def Let_def)
      then show ?thesis using scale_rows_error [OF Inl] by simp
    next
      case (Inr qd)
      then show ?thesis using h ws \<open>pseudo_quantize_tensor cfg ws = Inr r\<close> r
        by (simp add: scale_layer_def Let_def)
    qed
  qed
qed

lemma broadcast2_error: "broadcast2 f a b = Inl e \<Longrightarrow> e = TorchError"
  by (simp add: broadcast2_def split: if_splits)

lemma scale_candidate_error:
  assumes h: "scale_candidate cfg xm wm k = Inl e"
  shows "e \<noteq> SearchException"
proof (cases "duo_scaling cfg")
  case True
  let ?b = "broadcast2
      (\<lambda>x w. max (torch_pow x (real k / 20) / (torch_pow w (1 - real k / 20) + 1 / 10000)) (1 / 10000))
      xm wm"
  show ?thesis
  proof (cases ?b)
    case (Inl e1)
    then have "e = e1" using h True by (simp add: scale_candidate_def Let_def)
    then show ?thesis using broadcast2_error [OF Inl] by simp
  next
    case (Inr sc)
    then have "e = TorchError"
      using h True by (simp add: scale_candidate_def Let_def split: if_splits)
    then show ?thesis by simp
  qed
next
  case False
  then have "e = TorchError"
    using h by (simp add: scale_candidate_def Let_def split: if_splits)
  then show ?thesis by simp
qed

lemma scale_layers_error:
  "for_loop (scale_layer cfg scales) fcs st = Inl e \<Longrightarrow> e \<noteq> SearchException"
proof (induction fcs arbitrary: st)
  case Nil
  then show ?case by simp
next
  case (Cons fc fcs)
  show ?case
  proof (cases "scale_layer cfg scales fc st")
    case (Inl e1)
    then have "e = e1" using Cons.prems by simp
    then show ?thesis using scale_layer_error [OF Inl] by simp
  next
    case (Inr st')
    then show ?thesis using Cons.prems Cons.IH by simp
  qed
qed

lemma trial_step_error:
  assumes h: "trial_step cfg args sd k s = Inl e"
  shows "e \<noteq> SearchException"
proof (cases "scale_candidate cfg (x_mean args) (w_mean args) k")
  case (Inl e1)
  then have "e = e1" using h by (simp add: trial_step_def)
  then show ?thesis using scale_candidate_error [OF Inl] by simp
next
  case sc: (Inr scales)
  show ?thesis
  proof (cases "for_loop (scale_layer cfg scales) (linears2scale args) (model s)")
    case (Inl e1)
    then have "e = e1" using h sc by (simp add: trial_step_def)
    then show ?thesis using scale_layers_error [OF Inl] by simp
  next
    case st: (Inr st)
    show ?thesis
    proof (cases "compute_loss cfg (output_element_size args) (fp16_output args)
        (forward args (state_dict st))")
      case (Inl e1)
      then have "e = e1" using h sc st by (simp add: trial_step_def)
      then show ?thesis using compute_loss_error [OF Inl] by simp
    next
      case (Inr loss)
      then show ?thesis using h sc st by (simp add: trial_step_def Let_def)
    qed
  qed
qed

lemma trial_step_Inr:
  assumes "trial_step cfg args sd k s = Inr s'"
  obtains scales st loss where
    "scale_candidate cfg (x_mean args) (w_mean args) k = Inr scales"
    "for_loop (scale_layer cfg scales) (linears2scale args) (model s) = Inr st"
    "compute_loss cfg (output_element_size args) (fp16_output args)
       (forward args (state_dict st)) = Inr loss"
    "s' = (if fl_less loss (best_error s)
           then s\<lparr>hist := hist s @ [loss], best_error := loss, best_ratio := real k / 20,
                  best_scales := Some scales\<rparr>
           else s\<lparr>hist := hist s @ [loss]\<rparr>)\<lparr>model := load_state_dict sd st\<rparr>"
proof (cases "scale_candidate cfg (x_mean args) (w_mean args) k")
  case (Inl e)
  then show ?thesis using assms by (simp add: trial_step_def)
next
  case sc: (Inr scales)
  show ?thesis
  proof (cases "for_loop (scale_layer cfg scales) (linears2scale args) (model s)")
    case (Inl e)
    then show ?thesis using assms sc by (simp add: trial_step_def)
  next
    case st: (Inr st)
    show ?thesis
    proof (cases "compute_loss cfg (output_element_size args) (fp16_output args)
        (forward args (state_dict st))")
      case (Inl e)
      then show ?thesis using assms sc st by (simp add: trial_step_def)
    next
      case (Inr loss)
      have "s' = (if fl_less loss (best_error s)
           then s\<lparr>hist := hist s @ [loss], best_error := loss, best_ratio := real k / 20,
                  best_scales := Some scales\<rparr>
           else s\<lparr>hist := hist s @ [loss]\<rparr>)\<lparr>model := load_state_dict sd st\<rparr>"
        using assms sc st Inr by (simp add: trial_step_def Let_def)
      then show ?thesis using that sc st Inr by blast
    qed
  qed
qed

lemma trial_step_book:
  assumes "trial_step cfg args sd k s = Inr s'"
  shows "\<exists>scales loss.
      scale_candidate cfg (x_mean args) (w_mean args) k = Inr scales \<and> loss \<noteq> NInf \<and>
      hist s' = hist s @ [loss] \<and>
      (if fl_less loss (best_error s)
       then best_error s' = loss \<and> best_ratio s' = real k / 20 \<and> best_scales s' = Some scales
       else best_error s' = best_error s \<and> best_ratio s' = best_ratio s \<and>
            best_scales s' = best_scales s)"
proof -
  from assms obtain scales st loss where
    sc: "scale_candidate cfg (x_mean args) (w_mean args) k = Inr scales"
    and l: "compute_loss cfg (output_element_size args) (fp16_output args)
       (forward args (state_dict st)) = Inr loss"
    and s': "s' = (if fl_less loss (best_error s)
           then s\<lparr>hist := hist s @ [loss], best_error := loss, best_ratio := real k / 20,
                  best_scales := Some scales\<rparr>
           else s\<lparr>hist := hist s @ [loss]\<rparr>)\<lparr>model := load_state_dict sd st\<rparr>"
    by (rule trial_step_Inr)
  have "loss \<noteq> NInf" by (rule compute_loss_not_NInf [OF l])
  then show ?thesis using sc s' by (intro exI [of _ scales] exI [of _ loss]) simp
qed

lemma book_step:
  assumes b: "book cfg args s" and len: "length (hist s) = k"
    and t: "trial_step cfg args sd k s = Inr s'"
  shows "book cfg args s' \<and> length (hist s') = Suc k"
proof -
  from trial_step_book [OF t] obtain scales loss where
    sc: "scale_candidate cfg (x_mean args) (w_mean args) k = Inr scales"
    and ln: "loss \<noteq> NInf" and h: "hist s' = hist s @ [loss]"
    and u: "if fl_less loss (best_error s)
       then best_error s' = loss \<and> best_ratio s' = real k / 20 \<and> best_scales s' = Some scales
       else best_error s' = best_error s \<and> best_ratio s' = best_ratio s \<and>
            best_scales s' = best_scales s"
    by blast
  have nn: "\<forall>l \<in> set (hist s'). l \<noteq> NInf" using b ln h by (simp add: book_def)
  have k20: "real k / 20 \<noteq> - 1"
  proof -
    have "0 \<le> real k / 20" by simp
    then show ?thesis by linarith
  qed
  show ?thesis
  proof (cases "fl_less loss (best_error s)")
    case True
    then have u': "best_error s' = loss" "best_ratio s' = real k / 20" "best_scales s' = Some scales"
      using u by simp_all
    have lp: "fl_less loss PInf" using True ln by (cases loss; cases "best_error s") simp_all
    have others: "\<forall>j < length (hist s). \<not> fl_less (hist s ! j) loss"
    proof (cases "best_ratio s = - 1")
      case True
      then have "\<forall>l \<in> set (hist s). \<not> fl_less l PInf" using b by (simp add: book_def)
      then show ?thesis using fl_less_trans [OF _ lp] by (metis nth_mem)
    next
      case False
      then obtain i where i: "i < length (hist s)" "best_error s = hist s ! i"
        "\<forall>j < length (hist s). \<not> fl_less (hist s ! j) (hist s ! i)"
        using b by (auto simp: book_def)
      show ?thesis using i True fl_less_trans by metis
    qed
    have self: "\<not> fl_less loss loss" by (cases loss) simp_all
    have all: "\<forall>j < length (hist s'). \<not> fl_less (hist s' ! j) (hist s' ! k)"
      using others self h len by (auto simp: nth_append)
    have "\<exists>i < length (hist s'). \<exists>sc'. best_ratio s' = real i / 20 \<and>
        scale_candidate cfg (x_mean args) (w_mean args) i = Inr sc' \<and>
        best_scales s' = Some sc' \<and> best_error s' = hist s' ! i \<and>
        fl_less (hist s' ! i) PInf \<and>
        (\<forall>j < length (hist s'). \<not> fl_less (hist s' ! j) (hist s' ! i))"
      using u' sc lp all h len by (intro exI [of _ k]) (simp add: nth_append)
    then show ?thesis using nn u'(2) k20 h len by (simp add: book_def)
  next
    case False
    then have u': "best_error s' = best_error s" "best_ratio s' = best_ratio s"
      "best_scales s' = best_scales s"
      using u by simp_all
    show ?thesis
    proof (cases "best_ratio s = - 1")
      case True
      then have be: "best_error s = PInf" and old: "\<forall>l \<in> set (hist s). \<not> fl_less l PInf"
        using b by (simp_all add: book_def)
      have "\<not> fl_less loss PInf" using False be by simp
      then show ?thesis using nn u' True be old h len by (simp add: book_def)
    next
      case nb: False
      then obtain i sc' where i: "i < length (hist s)" "best_ratio s = real i / 20"
        "scale_candidate cfg (x_mean args) (w_mean args) i = Inr sc'"
        "best_scales s = Some sc'" "best_error s = hist s ! i" "fl_less (hist s ! i) PInf"
        "\<forall>j < length (hist s). \<not> fl_less (hist s ! j) (hist s ! i)"
        using b by (auto simp: book_def)
      have all: "\<forall>j < length (hist s'). \<not> fl_less (hist s' ! j) (hist s' ! i)"
        using i(1,5,7) False h by (auto simp: nth_append less_Suc_eq)
      have "\<exists>i < length (hist s'). \<exists>sc'. best_ratio s' = real i / 20 \<and>
          scale_candidate cfg (x_mean args) (w_mean args) i = Inr sc' \<and>
          best_scales s' = Some sc' \<and> best_error s' = hist s' ! i \<and>
          fl_less (hist s' ! i) PInf \<and>
          (\<forall>j < length (hist s'). \<not> fl_less (hist s' ! j) (hist s' ! i))"
        using i u' all h by (intro exI [of _ i]) (simp add: nth_append)
      then show ?thesis using nn u' nb h len by (simp add: book_def)
    qed
  qed
qed

lemma grid_book:
  assumes "for_loop (trial_step cfg args sd) [0..<20]
      \<lparr>model = st, hist = [], best_error = PInf, best_ratio = - 1, best_scales = None\<rparr> = Inr s"
  shows "book cfg args s \<and> length (hist s) = 20"
proof -
  let ?s0 = "\<lparr>model = st, hist = [], best_error = PInf, best_ratio = - 1, best_scales = None\<rparr>"
  have init: "book cfg args ?s0 \<and> length (hist ?s0) = 0" by (simp add: book_def)
  show ?thesis
    by (rule for_loop_upt_inv [where P = "\<lambda>k t. book cfg args t \<and> length (hist t) = k",
          OF assms init]) (use book_step in blast, simp)
qed

section \<open>Properties of the scale search: the store\<close>

lemma sepD:
  assumes "sep sd V fcs st"
  shows "length (params st) = length sd" and "length V = length sd" and "distinct (params st)"
    and "\<And>fc. fc \<in> set fcs \<Longrightarrow> fc < length sd"
    and "\<And>i. i < length sd \<Longrightarrow> params st ! i < length (heap st)"
    and "\<And>i. i < length sd \<Longrightarrow> sd ! i < length (heap st)"
    and "\<And>i. i < length sd \<Longrightarrow> heap st ! (sd ! i) = V ! i"
    and "\<And>i j. i < length sd \<Longrightarrow> j < length sd \<Longrightarrow> params st ! i = sd ! j \<Longrightarrow> i = j"
    and "\<And>i j. i < length sd \<Longrightarrow> j < length sd \<Longrightarrow> params st ! i = sd ! j \<Longrightarrow> i \<notin> set fcs"
  using assms unfolding sep_def by blast+

lemma sepI:
  assumes "length (params st) = length sd" and "length V = length sd" and "distinct (params st)"
    and "\<And>fc. fc \<in> set fcs \<Longrightarrow> fc < length sd"
    and "\<And>i. i < length sd \<Longrightarrow> params st ! i < length (heap st)"
    and "\<And>i. i < length sd \<Longrightarrow> sd ! i < length (heap st)"
    and "\<And>i. i < length sd \<Longrightarrow> heap st ! (sd ! i) = V ! i"
    and "\<And>i j. i < length sd \<Longrightarrow> j < length sd \<Longrightarrow> params st ! i = sd ! j \<Longrightarrow> i = j \<and> i \<notin> set fcs"
  shows "sep sd V fcs st"
  unfolding sep_def using assms by blast

lemma sep_wf:
  assumes "sep sd V fcs st"
  shows "wf_module st"
proof -
  have "\<forall>a \<in> set (params st). a < length (heap st)"
    using sepD(1,5) [OF assms] by (metis in_set_conv_nth)
  then show ?thesis using sepD(3) [OF assms] by (simp add: wf_module_def)
qed

lemma scale_layer_unfold:
  "scale_layer cfg scales fc st =
     (case scale_rows (*) (heap st ! (params st ! fc)) scales of
        Inl e \<Rightarrow> Inl e
      | Inr ws \<Rightarrow>
          (case trial_weight cfg scales (heap st ! (params st ! fc)) of
             Inl e \<Rightarrow> Inl e
           | Inr qd \<Rightarrow>
               Inr \<lparr>params = (params st)[fc := length (heap st)],
                    heap = (heap st)[params st ! fc := ws] @ [qd]\<rparr>))"
  by (simp add: scale_layer_def trial_weight_def Let_def split: sum.splits prod.splits)

lemma trial_weight_Inr_rows:
  "trial_weight cfg scales w = Inr v \<Longrightarrow> \<exists>ws. scale_rows (*) w scales = Inr ws"
  by (simp add: trial_weight_def split: sum.splits)

lemma scale_layer_Inr:
  assumes "scale_layer cfg scales fc st = Inr st'"
  obtains ws qd where "scale_rows (*) (heap st ! (params st ! fc)) scales = Inr ws"
    "trial_weight cfg scales (heap st ! (params st ! fc)) = Inr qd"
    "st' = \<lparr>params = (params st)[fc := length (heap st)],
            heap = (heap st)[params st ! fc := ws] @ [qd]\<rparr>"
  using assms unfolding scale_layer_unfold by (auto split: sum.splits)

lemma state_dict_scaled:
  assumes wf: "wf_module st" and fc: "fc < length (params st)"
  shows "state_dict \<lparr>params = (params st)[fc := length (heap st)],
                     heap = (heap st)[params st ! fc := ws] @ [qd]\<rparr> = (state_dict st)[fc := qd]"
proof (rule nth_equalityI)
  show "length (state_dict \<lparr>params = (params st)[fc := length (heap st)],
      heap = (heap st)[params st ! fc := ws] @ [qd]\<rparr>) = length ((state_dict st)[fc := qd])"
    by (simp add: state_dict_def)
next
  fix i
  assume "i < length (state_dict \<lparr>params = (params st)[fc := length (heap st)],
      heap = (heap st)[params st ! fc := ws] @ [qd]\<rparr>)"
  then have i: "i < length (params st)" by (simp add: state_dict_def)
  have lt: "params st ! i < length (heap st)" using wf i by (simp add: wf_module_def)
  show "state_dict \<lparr>params = (params st)[fc := length (heap st)],
      heap = (heap st)[params st ! fc := ws] @ [qd]\<rparr> ! i = (state_dict st)[fc := qd] ! i"
  proof (cases "i = fc")
    case True
    then show ?thesis using i by (simp add: state_dict_def nth_append)
  next
    case False
    have "params st ! i \<noteq> params st ! fc"
      using wf i fc False by (simp add: wf_module_def nth_eq_iff_index_eq)
    then show ?thesis using i False lt by (simp add: state_dict_def nth_append)
  qed
qed

lemma scale_layer_dict:
  assumes wf: "wf_module st" and fc: "fc < length (params st)"
  shows "map_sum id state_dict (scale_layer cfg scales fc st) =
           scale_entry cfg scales fc (state_dict st)"
proof -
  have v: "state_dict st ! fc = heap st ! (params st ! fc)" using fc by (simp add: state_dict_def)
  show ?thesis
  proof (cases "trial_weight cfg scales (heap st ! (params st ! fc))")
    case (Inl e)
    then show ?thesis
      unfolding scale_layer_unfold scale_entry_def v
      by (auto simp: trial_weight_def split: sum.splits)
  next
    case (Inr qd)
    then obtain ws where ws: "scale_rows (*) (heap st ! (params st ! fc)) scales = Inr ws"
      using trial_weight_Inr_rows by blast
    show ?thesis
      unfolding scale_layer_unfold scale_entry_def v
      using Inr ws state_dict_scaled [OF wf fc] by simp
  qed
qed

lemma scale_layer_sep:
  assumes s: "sep sd V fcs st" and fc: "fc \<in> set fcs"
    and r: "scale_layer cfg scales fc st = Inr st'"
  shows "sep sd V fcs st'"
proof -
  from r obtain ws qd where st': "st' = \<lparr>params = (params st)[fc := length (heap st)],
            heap = (heap st)[params st ! fc := ws] @ [qd]\<rparr>"
    by (rule scale_layer_Inr)
  let ?n = "length sd"
  let ?A = "(params st)[fc := length (heap st)]"
  let ?H = "(heap st)[params st ! fc := ws] @ [qd]"
  note d = sepD [OF s]
  have fcn: "fc < ?n" using d(4) fc by simp
  have notsd: "\<And>j. j < ?n \<Longrightarrow> params st ! fc \<noteq> sd ! j"
    using d(9) [OF fcn] fc by blast
  have fresh: "length (heap st) \<notin> set (params st)"
  proof
    assume "length (heap st) \<in> set (params st)"
    then obtain i where "i < length (params st)" "params st ! i = length (heap st)"
      by (auto simp: in_set_conv_nth)
    then show False using d(5) [of i] d(1) by simp
  qed
  show ?thesis unfolding st'
  proof (rule sepI)
    show "length (params \<lparr>params = ?A, heap = ?H\<rparr>) = ?n" using d(1) by simp
    show "length V = ?n" by (rule d(2))
    show "distinct (params \<lparr>params = ?A, heap = ?H\<rparr>)"
      using d(3) fresh by (simp add: distinct_list_update)
    show "\<And>fc. fc \<in> set fcs \<Longrightarrow> fc < ?n" by (rule d(4))
  next
    fix i assume i: "i < ?n"
    have "?A ! i < Suc (length (heap st))"
      using d(5) [OF i] i d(1) by (cases "i = fc") simp_all
    then show "params \<lparr>params = ?A, heap = ?H\<rparr> ! i < length (heap \<lparr>params = ?A, heap = ?H\<rparr>)"
      by simp
    show "sd ! i < length (heap \<lparr>params = ?A, heap = ?H\<rparr>)" using d(6) [OF i] by simp
    show "heap \<lparr>params = ?A, heap = ?H\<rparr> ! (sd ! i) = V ! i"
      using d(6,7) [OF i] notsd [OF i] by (simp add: nth_append)
  next
    fix i j assume i: "i < ?n" and j: "j < ?n"
      and e: "params \<lparr>params = ?A, heap = ?H\<rparr> ! i = sd ! j"
    show "i = j \<and> i \<notin> set fcs"
    proof (cases "i = fc")
      case True
      then have "length (heap st) = sd ! j" using e i d(1) by simp
      then show ?thesis using d(6) [OF j] by simp
    next
      case False
      then have "params st ! i = sd ! j" using e by simp
      then show ?thesis using d(8,9) [OF i j] by simp
    qed
  qed
qed

lemma scale_layers_sep_dict:
  assumes "sep sd V fcs st" and "set fs \<subseteq> set fcs"
  shows "map_sum id state_dict (for_loop (scale_layer cfg scales) fs st) =
           for_loop (scale_entry cfg scales) fs (state_dict st) \<and>
         (\<forall>st'. for_loop (scale_layer cfg scales) fs st = Inr st' \<longrightarrow> sep sd V fcs st')"
  using assms
proof (induction fs arbitrary: st)
  case Nil
  then show ?case by simp
next
  case (Cons fc fs)
  have fcin: "fc \<in> set fcs" and sub: "set fs \<subseteq> set fcs" using Cons.prems(2) by simp_all
  have wf: "wf_module st" by (rule sep_wf [OF Cons.prems(1)])
  have fcl: "fc < length (params st)" using sepD(1,4) [OF Cons.prems(1)] fcin by simp
  note d = scale_layer_dict [OF wf fcl, of cfg scales]
  show ?case
  proof (cases "scale_layer cfg scales fc st")
    case (Inl e)
    then have "scale_entry cfg scales fc (state_dict st) = Inl e" using d by simp
    then show ?thesis using Inl by simp
  next
    case (Inr st1)
    then have e: "scale_entry cfg scales fc (state_dict st) = Inr (state_dict st1)" using d by simp
    have s1: "sep sd V fcs st1" by (rule scale_layer_sep [OF Cons.prems(1) fcin Inr])
    show ?thesis using Cons.IH [OF s1 sub] Inr e by simp
  qed
qed

lemma load_fold:
  assumes s: "sep sd V fcs st" and m: "m \<le> length sd"
  shows "length (fold (\<lambda>i h. h[params st ! i := h ! (sd ! i)]) [0..<m] (heap st)) = length (heap st) \<and>
         (\<forall>j < length sd. fold (\<lambda>i h. h[params st ! i := h ! (sd ! i)]) [0..<m] (heap st) ! (sd ! j) = V ! j) \<and>
         (\<forall>i < m. fold (\<lambda>i h. h[params st ! i := h ! (sd ! i)]) [0..<m] (heap st) ! (params st ! i) = V ! i)"
  using m
proof (induction m)
  case 0
  then show ?case using sepD(7) [OF s] by simp
next
  case (Suc m)
  let ?F = "fold (\<lambda>i h. h[params st ! i := h ! (sd ! i)]) [0..<m] (heap st)"
  let ?n = "length sd"
  have mn: "m < ?n" using Suc.prems by simp
  have ih: "length ?F = length (heap st)" "\<forall>j < ?n. ?F ! (sd ! j) = V ! j"
    "\<forall>i < m. ?F ! (params st ! i) = V ! i"
    using Suc.IH mn by simp_all
  have step: "fold (\<lambda>i h. h[params st ! i := h ! (sd ! i)]) [0..<Suc m] (heap st) =
      ?F[params st ! m := V ! m]"
    using ih(2) mn by simp
  have len: "length (params st) = ?n" and dist: "distinct (params st)"
    using sepD(1,3) [OF s] by simp_all
  have cells: "\<And>i. i < ?n \<Longrightarrow> params st ! i < length (heap st)"
    by (rule sepD(5) [OF s])
  have ali: "\<And>i j. i < ?n \<Longrightarrow> j < ?n \<Longrightarrow> params st ! i = sd ! j \<Longrightarrow> i = j"
    by (rule sepD(8) [OF s])
  have a: "\<forall>j < ?n. ?F[params st ! m := V ! m] ! (sd ! j) = V ! j"
  proof (intro allI impI)
    fix j assume j: "j < ?n"
    show "?F[params st ! m := V ! m] ! (sd ! j) = V ! j"
    proof (cases "params st ! m = sd ! j")
      case True
      then have "m = j" using ali [OF mn j] by simp
      then show ?thesis using True cells [OF mn] ih(1) by simp
    next
      case False
      then show ?thesis using ih(2) j by simp
    qed
  qed
  have b: "\<forall>i < Suc m. ?F[params st ! m := V ! m] ! (params st ! i) = V ! i"
  proof (intro allI impI)
    fix i assume i: "i < Suc m"
    show "?F[params st ! m := V ! m] ! (params st ! i) = V ! i"
    proof (cases "i = m")
      case True
      then show ?thesis using cells [OF mn] ih(1) by simp
    next
      case False
      then have im: "i < m" using i by simp
      have "params st ! i \<noteq> params st ! m"
        using dist im mn len by (simp add: nth_eq_iff_index_eq)
      then show ?thesis using ih(3) im by simp
    qed
  qed
  show ?case unfolding step using ih(1) a b by simp
qed

lemma load_sep:
  assumes s: "sep sd V fcs st"
  shows "sep sd V fcs (load_state_dict sd st) \<and> state_dict (load_state_dict sd st) = V"
proof -
  let ?n = "length sd"
  let ?F = "fold (\<lambda>i h. h[params st ! i := h ! (sd ! i)]) [0..<?n] (heap st)"
  note d = sepD [OF s]
  have l: "load_state_dict sd st = st\<lparr>heap := ?F\<rparr>" by (simp add: load_state_dict_def d(1))
  have f: "length ?F = length (heap st)" "\<forall>j < ?n. ?F ! (sd ! j) = V ! j"
    "\<forall>i < ?n. ?F ! (params st ! i) = V ! i"
    using load_fold [OF s, of ?n] by simp_all
  have sd: "state_dict (st\<lparr>heap := ?F\<rparr>) = V"
    by (rule nth_equalityI) (use f(3) d(1,2) in \<open>simp_all add: state_dict_def\<close>)
  have "sep sd V fcs (st\<lparr>heap := ?F\<rparr>)"
  proof (rule sepI)
    show "length (params (st\<lparr>heap := ?F\<rparr>)) = ?n" using d(1) by simp
    show "length V = ?n" by (rule d(2))
    show "distinct (params (st\<lparr>heap := ?F\<rparr>))" using d(3) by simp
    show "\<And>fc. fc \<in> set fcs \<Longrightarrow> fc < ?n" by (rule d(4))
    show "\<And>i. i < ?n \<Longrightarrow> params (st\<lparr>heap := ?F\<rparr>) ! i < length (heap (st\<lparr>heap := ?F\<rparr>))"
      using d(5) f(1) by simp
    show "\<And>i. i < ?n \<Longrightarrow> sd ! i < length (heap (st\<lparr>heap := ?F\<rparr>))"
      using d(6) f(1) by simp
    show "\<And>i. i < ?n \<Longrightarrow> heap (st\<lparr>heap := ?F\<rparr>) ! (sd ! i) = V ! i"
      using f(2) by simp
    show "\<And>i j. i < ?n \<Longrightarrow> j < ?n \<Longrightarrow> params (st\<lparr>heap := ?F\<rparr>) ! i = sd ! j \<Longrightarrow>
        i = j \<and> i \<notin> set fcs"
      using d(8,9) by simp
  qed
  then show ?thesis using sd l by simp
qed

lemma trial_step_sep:
  assumes s: "sep sd V (linears2scale args) (model s)" and v: "state_dict (model s) = V"
    and t: "trial_step cfg args sd k s = Inr s'"
  shows "sep sd V (linears2scale args) (model s') \<and> state_dict (model s') = V \<and>
         (\<exists>l. trial_loss cfg args V k = Inr l \<and> hist s' = hist s @ [l])"
proof -
  from t obtain scales st loss where
    sc: "scale_candidate cfg (x_mean args) (w_mean args) k = Inr scales"
    and fl: "for_loop (scale_layer cfg scales) (linears2scale args) (model s) = Inr st"
    and l: "compute_loss cfg (output_element_size args) (fp16_output args)
       (forward args (state_dict st)) = Inr loss"
    and s': "s' = (if fl_less loss (best_error s)
           then s\<lparr>hist := hist s @ [loss], best_error := loss, best_ratio := real k / 20,
                  best_scales := Some scales\<rparr>
           else s\<lparr>hist := hist s @ [loss]\<rparr>)\<lparr>model := load_state_dict sd st\<rparr>"
    by (rule trial_step_Inr)
  note m = scale_layers_sep_dict [OF s subset_refl, of cfg scales]
  have pure: "for_loop (scale_entry cfg scales) (linears2scale args) V = Inr (state_dict st)"
    using m fl v by simp
  have st: "sep sd V (linears2scale args) st" using m fl by simp
  have tl: "trial_loss cfg args V k = Inr loss" using sc pure l by (simp add: trial_loss_def)
  have ms: "model s' = load_state_dict sd st" and hs: "hist s' = hist s @ [loss]"
    using s' by simp_all
  show ?thesis using load_sep [OF st] tl ms hs by simp
qed

lemma trial_step_succeeds:
  assumes s: "sep sd V (linears2scale args) (model s)" and v: "state_dict (model s) = V"
    and tl: "trial_loss cfg args V k = Inr l"
  shows "\<exists>s'. trial_step cfg args sd k s = Inr s'"
proof -
  from tl obtain scales d' where
    sc: "scale_candidate cfg (x_mean args) (w_mean args) k = Inr scales"
    and pure: "for_loop (scale_entry cfg scales) (linears2scale args) V = Inr d'"
    and l: "compute_loss cfg (output_element_size args) (fp16_output args) (forward args d') = Inr l"
    by (auto simp: trial_loss_def split: sum.splits)
  note m = scale_layers_sep_dict [OF s subset_refl, of cfg scales]
  have "map_sum id state_dict (for_loop (scale_layer cfg scales) (linears2scale args) (model s)) = Inr d'"
    using m pure v by simp
  then obtain st where fl: "for_loop (scale_layer cfg scales) (linears2scale args) (model s) = Inr st"
    and d': "state_dict st = d'"
    by (cases "for_loop (scale_layer cfg scales) (linears2scale args) (model s)") auto
  show ?thesis using sc fl l d' by (simp add: trial_step_def Let_def)
qed

lemma for_loop_upt_succeeds:
  assumes "P m s"
    and "\<And>k t. m \<le> k \<Longrightarrow> k < n \<Longrightarrow> P k t \<Longrightarrow> \<exists>t'. body k t = Inr t' \<and> P (Suc k) t'"
  shows "\<exists>s'. for_loop body [m..<n] s = Inr s'"
  using assms
proof (induction "n - m" arbitrary: m s)
  case 0
  then show ?case by simp
next
  case (Suc d)
  then have lt: "m < n" by simp
  then have upt: "[m..<n] = m # [Suc m..<n]" by (simp add: upt_conv_Cons)
  obtain t where b: "body m s = Inr t" and P1: "P (Suc m) t"
    using Suc.prems(2) [OF _ lt Suc.prems(1)] by auto
  have d: "d = n - Suc m" using Suc.hyps(2) by simp
  have "\<exists>s'. for_loop body [Suc m..<n] t = Inr s'"
  proof (rule Suc.hyps(1) [OF d P1])
    fix k t assume "Suc m \<le> k" "k < n" "P k t"
    then show "\<exists>t'. body k t = Inr t' \<and> P (Suc k) t'" using Suc.prems(2) [of k t] by simp
  qed
  then show ?case unfolding upt using b by simp
qed

lemma grid_sep:
  assumes run: "for_loop (trial_step cfg args sd) [m..<n] s = Inr s'"
    and s: "sep sd V (linears2scale args) (model s)" and v: "state_dict (model s) = V"
    and len: "length (hist s) = m" and mn: "m \<le> n"
  shows "sep sd V (linears2scale args) (model s') \<and> state_dict (model s') = V \<and>
         length (hist s') = n \<and>
         (\<forall>k. m \<le> k \<and> k < n \<longrightarrow> trial_loss cfg args V k = Inr (hist s' ! k))"
proof -
  let ?P = "\<lambda>k t. sep sd V (linears2scale args) (model t) \<and> state_dict (model t) = V \<and>
      length (hist t) = k \<and> (\<forall>j. m \<le> j \<and> j < k \<longrightarrow> trial_loss cfg args V j = Inr (hist t ! j))"
  have init: "?P m s" using s v len by auto
  have step: "\<And>k t t'. m \<le> k \<Longrightarrow> k < n \<Longrightarrow> ?P k t \<Longrightarrow> trial_step cfg args sd k t = Inr t' \<Longrightarrow>
      ?P (Suc k) t'"
  proof -
    fix k t t' assume mk: "m \<le> k" and P: "?P k t" and t: "trial_step cfg args sd k t = Inr t'"
    from P have ps: "sep sd V (linears2scale args) (model t)" and pv: "state_dict (model t) = V"
      and pl: "length (hist t) = k"
      and ph: "\<forall>j. m \<le> j \<and> j < k \<longrightarrow> trial_loss cfg args V j = Inr (hist t ! j)"
      by simp_all
    from trial_step_sep [OF ps pv t] obtain l where
      a: "sep sd V (linears2scale args) (model t')" "state_dict (model t') = V"
      and tl: "trial_loss cfg args V k = Inr l" and h: "hist t' = hist t @ [l]"
      by blast
    have "\<forall>j. m \<le> j \<and> j < Suc k \<longrightarrow> trial_loss cfg args V j = Inr (hist t' ! j)"
    proof (intro allI impI)
      fix j assume j: "m \<le> j \<and> j < Suc k"
      show "trial_loss cfg args V j = Inr (hist t' ! j)"
      proof (cases "j = k")
        case True
        then show ?thesis using tl h pl by (simp add: nth_append)
      next
        case False
        then have "j < k" using j by simp
        then show ?thesis using ph j h pl by (simp add: nth_append)
      qed
    qed
    then show "?P (Suc k) t'" using a h pl by simp
  qed
  show ?thesis by (rule for_loop_upt_inv [where P = ?P, OF run init step mn])
qed

lemma grid_succeeds:
  assumes s: "sep sd V (linears2scale args) (model s)" and v: "state_dict (model s) = V"
    and ok: "\<And>k. k < n \<Longrightarrow> \<exists>l. trial_loss cfg args V k = Inr l"
  shows "\<exists>s'. for_loop (trial_step cfg args sd) [m..<n] s = Inr s'"
proof -
  let ?P = "\<lambda>k t. sep sd V (linears2scale args) (model t) \<and> state_dict (model t) = V"
  have init: "?P m s" using s v by simp
  show ?thesis
  proof (rule for_loop_upt_succeeds [where P = ?P, OF init])
    fix k and t :: search_state assume kn: "k < n" and P: "?P k t"
    from ok [OF kn] obtain l where tl: "trial_loss cfg args V k = Inr l" by blast
    from P have ps: "sep sd V (linears2scale args) (model t)" and pv: "state_dict (model t) = V"
      by simp_all
    from trial_step_succeeds [OF ps pv tl] obtain t' where t: "trial_step cfg args sd k t = Inr t'"
      by blast
    have "?P (Suc k) t'" using trial_step_sep [OF ps pv t] by simp
    then show "\<exists>t'. trial_step cfg args sd k t = Inr t' \<and> ?P (Suc k) t'" using t by blast
  qed
qed

lemma snapshot_accelerator_sep:
  assumes wf: "wf_module st0" and fcs: "\<forall>fc \<in> set fcs. fc < length (params st0)"
    and sn: "snapshot Accelerator st0 = (sd, st1)"
  shows "sep sd (state_dict st0) fcs st1 \<and> state_dict st1 = state_dict st0"
proof -
  let ?H = "heap st0" and ?A = "params st0"
  have sd: "sd = [length ?H..<length ?H + length ?A]"
    and st1: "st1 = st0\<lparr>heap := ?H @ state_dict st0\<rparr>"
    using sn by (simp_all add: snapshot_def)
  have lt: "\<And>i. i < length ?A \<Longrightarrow> ?A ! i < length ?H" using wf by (simp add: wf_module_def)
  have dist: "distinct ?A" using wf by (simp add: wf_module_def)
  have lsd: "length sd = length ?A" using sd by simp
  have lV: "length (state_dict st0) = length ?A" by (simp add: state_dict_def)
  have a: "sep sd (state_dict st0) fcs st1"
  proof (rule sepI)
    show "length (params st1) = length sd" using st1 lsd by simp
    show "length (state_dict st0) = length sd" using lsd lV by simp
    show "distinct (params st1)" using st1 dist by simp
    show "\<And>fc. fc \<in> set fcs \<Longrightarrow> fc < length sd" using fcs lsd by simp
    show "\<And>i. i < length sd \<Longrightarrow> params st1 ! i < length (heap st1)"
      using st1 lsd lt by (simp add: less_imp_le_nat trans_less_add1)
    show "\<And>i. i < length sd \<Longrightarrow> sd ! i < length (heap st1)"
      using st1 sd lV by simp
    show "\<And>i. i < length sd \<Longrightarrow> heap st1 ! (sd ! i) = state_dict st0 ! i"
      using st1 sd by (simp add: nth_append)
  next
    fix i j assume i: "i < length sd" and j: "j < length sd" and e: "params st1 ! i = sd ! j"
    have "params st1 ! i < length ?H" using st1 lt i lsd by simp
    moreover have "length ?H \<le> sd ! j" using sd j by simp
    ultimately show "i = j \<and> i \<notin> set fcs" using e by simp
  qed
  have "state_dict st1 = state_dict st0"
    unfolding st1 state_dict_def using lt by (auto simp: nth_append in_set_conv_nth)
  then show ?thesis using a by simp
qed

lemma compute_best_scale_Inr:
  assumes "compute_best_scale cfg args st0 = Inr r"
  obtains sd st1 s where "snapshot (device args) st0 = (sd, st1)"
    "for_loop (trial_step cfg args sd) [0..<20]
       \<lparr>model = st1, hist = [], best_error = PInf, best_ratio = - 1, best_scales = None\<rparr> = Inr s"
    "final r = model s" "history r = hist s"
    "(best_ratio s = - 1 \<and> outcome r = Inl SearchException \<and> debug_log r = [hist s]) \<or>
     (best_ratio s \<noteq> - 1 \<and> (\<exists>sc. best_scales s = Some sc \<and> outcome r = Inr sc) \<and> debug_log r = [])"
proof -
  obtain sd st1 where sn: "snapshot (device args) st0 = (sd, st1)"
    by (cases "snapshot (device args) st0")
  let ?s0 = "\<lparr>model = st1, hist = [], best_error = PInf, best_ratio = - 1, best_scales = None\<rparr>"
  show ?thesis
  proof (cases "for_loop (trial_step cfg args sd) [0..<20] ?s0")
    case (Inl e)
    then show ?thesis using assms sn by (simp add: compute_best_scale_def)
  next
    case (Inr s)
    show ?thesis
    proof (cases "best_ratio s = - 1")
      case True
      then have "r = \<lparr>outcome = Inl SearchException, final = model s, history = hist s,
          debug_log = [hist s]\<rparr>"
        using assms sn Inr by (simp add: compute_best_scale_def)
      then show ?thesis using that [OF sn Inr] True by simp
    next
      case False
      show ?thesis
      proof (cases "best_scales s")
        case None
        then show ?thesis using assms sn Inr False by (simp add: compute_best_scale_def)
      next
        case (Some sc)
        then have "r = \<lparr>outcome = Inr sc, final = model s, history = hist s, debug_log = []\<rparr>"
          using assms sn Inr False by (simp add: compute_best_scale_def)
        then show ?thesis using that [OF sn Inr] False Some by simp
      qed
    qed
  qed
qed

text \<open>
  When the module lives on an accelerator the snapshot is a copy, and the restoration
  works as intended: all twenty candidates are scored on the weights the module had
  before the search, and the search leaves these weights behind.
\<close>

lemma compute_best_scale_restores_on_accelerator:
  assumes dev: "device args = Accelerator" and wf: "wf_module st0"
    and fcs: "\<forall>fc \<in> set (linears2scale args). fc < length (params st0)"
    and run: "compute_best_scale cfg args st0 = Inr r"
  shows "state_dict (final r) = state_dict st0 \<and> length (history r) = 20 \<and>
         (\<forall>k < 20. trial_loss cfg args (state_dict st0) k = Inr (history r ! k))"
proof -
  from run obtain sd st1 s where sn: "snapshot (device args) st0 = (sd, st1)"
    and loop: "for_loop (trial_step cfg args sd) [0..<20]
       \<lparr>model = st1, hist = [], best_error = PInf, best_ratio = - 1, best_scales = None\<rparr> = Inr s"
    and f: "final r = model s" and h: "history r = hist s"
    by (rule compute_best_scale_Inr)
  have sn': "snapshot Accelerator st0 = (sd, st1)" using sn dev by simp
  note i = snapshot_accelerator_sep [OF wf fcs sn']
  have "sep sd (state_dict st0) (linears2scale args) (model s) \<and>
      state_dict (model s) = state_dict st0 \<and> length (hist s) = 20 \<and>
      (\<forall>k. 0 \<le> k \<and> k < 20 \<longrightarrow> trial_loss cfg args (state_dict st0) k = Inr (hist s ! k))"
    by (rule grid_sep [OF loop]) (use i in simp_all)
  then show ?thesis using f h by simp
qed

section \<open>Properties of the scale search: the returned scales\<close>




lemma search_result_book:
  assumes "compute_best_scale cfg args st0 = Inr r"
  shows "length (history r) = 20 \<and> (\<forall>l \<in> set (history r). l \<noteq> NInf) \<and>
     (outcome r = Inl SearchException \<and> debug_log r = [history r] \<and>
        (\<forall>l \<in> set (history r). \<not> fl_less l PInf)
      \<or> (\<exists>k < 20. \<exists>scales. outcome r = Inr scales \<and>
            scale_candidate cfg (x_mean args) (w_mean args) k = Inr scales \<and>
            fl_less (history r ! k) PInf \<and>
            (\<forall>j < 20. \<not> fl_less (history r ! j) (history r ! k))))"
proof -
  from assms obtain sd st1 s where
    loop: "for_loop (trial_step cfg args sd) [0..<20]
       \<lparr>model = st1, hist = [], best_error = PInf, best_ratio = - 1, best_scales = None\<rparr> = Inr s"
    and h: "history r = hist s"
    and o: "(best_ratio s = - 1 \<and> outcome r = Inl SearchException \<and> debug_log r = [hist s]) \<or>
     (best_ratio s \<noteq> - 1 \<and> (\<exists>sc. best_scales s = Some sc \<and> outcome r = Inr sc) \<and> debug_log r = [])"
    by (rule compute_best_scale_Inr)
  have b: "book cfg args s" and len: "length (hist s) = 20" using grid_book [OF loop] by simp_all
  have nn: "\<forall>l \<in> set (hist s). l \<noteq> NInf" using b unfolding book_def by blast
  show ?thesis
  proof (cases "best_ratio s = - 1")
    case True
    then have "\<forall>l \<in> set (hist s). \<not> fl_less l PInf" using b unfolding book_def by blast
    then show ?thesis using True o h len nn by simp
  next
    case False
    then obtain k scales where k: "k < length (hist s)"
      "scale_candidate cfg (x_mean args) (w_mean args) k = Inr scales"
      "best_scales s = Some scales" "fl_less (hist s ! k) PInf"
      "\<forall>j < length (hist s). \<not> fl_less (hist s ! j) (hist s ! k)"
      using b unfolding book_def by blast
    have "outcome r = Inr scales" using o False k(3) by auto
    then have "\<exists>k < 20. \<exists>scales. outcome r = Inr scales \<and>
            scale_candidate cfg (x_mean args) (w_mean args) k = Inr scales \<and>
            fl_less (history r ! k) PInf \<and>
            (\<forall>j < 20. \<not> fl_less (history r ! j) (history r ! k))"
      using k h len by (intro exI [of _ k] exI [of _ scales]) simp
    then show ?thesis using h len nn by simp
  qed
qed

lemma compute_best_scale_error:
  assumes "compute_best_scale cfg args st0 = Inl e"
  shows "e \<noteq> SearchException"
proof -
  obtain sd st1 where sn: "snapshot (device args) st0 = (sd, st1)"
    by (cases "snapshot (device args) st0")
  let ?s0 = "\<lparr>model = st1, hist = [], best_error = PInf, best_ratio = - 1, best_scales = None\<rparr>"
  show ?thesis
  proof (cases "for_loop (trial_step cfg args sd) [0..<20] ?s0")
    case (Inl e1)
    then have "e = e1" using assms sn by (simp add: compute_best_scale_def)
    moreover have "e1 \<noteq> SearchException"
      by (rule for_loop_error [OF Inl]) (rule trial_step_error)
    ultimately show ?thesis by simp
  next
    case (Inr s)
    then have "e = TorchError"
      using assms sn by (simp add: compute_best_scale_def split: if_splits option.splits)
    then show ?thesis by simp
  qed
qed

section \<open>A worked search\<close>

lemma scale_rows_succeeds:
  assumes "length scales = shape w ! 1"
  shows "\<exists>v. scale_rows f w scales = Inr v \<and> shape v = shape w"
  using assms by (simp add: scale_rows_def)

lemma pseudo_quantize_succeeds:
  assumes "0 < group_size cfg" and "shape w = [r, c]" and "r \<noteq> 0"
    and "int c mod group_size cfg = 0"
  shows "\<exists>q sc z. pseudo_quantize_tensor cfg w = Inr (q, sc, z) \<and> shape q = shape w"
  using assms by (simp add: pseudo_quantize_tensor_def quant_groups_def Let_def)

lemma trial_weight_succeeds:
  assumes gs: "0 < group_size cfg" and sh: "shape w = [r, c]" and r: "r \<noteq> 0"
    and c: "int c mod group_size cfg = 0" and len: "length scales = c"
  shows "\<exists>v. trial_weight cfg scales w = Inr v \<and> shape v = shape w"
proof -
  have l1: "length scales = shape w ! 1" using sh len by simp
  obtain ws where ws: "scale_rows (*) w scales = Inr ws" "shape ws = shape w"
    using scale_rows_succeeds [OF l1] by blast
  have sh2: "shape ws = [r, c]" using ws(2) sh by simp
  obtain q sc z where q: "pseudo_quantize_tensor cfg ws = Inr (q, sc, z)" "shape q = shape ws"
    using pseudo_quantize_succeeds [OF gs sh2 r c] by blast
  have l2: "length scales = shape q ! 1" using q(2) sh2 len by simp
  obtain v where v: "scale_rows (/) q scales = Inr v" "shape v = shape q"
    using scale_rows_succeeds [OF l2] by blast
  show ?thesis using ws q v by (simp add: trial_weight_def)
qed

lemma scale_entries_succeed:
  assumes gs: "0 < group_size cfg" and c: "int c mod group_size cfg = 0"
    and len: "length scales = c"
  shows "\<forall>fc \<in> set fcs. fc < length d \<and> (\<exists>r. r \<noteq> 0 \<and> shape (d ! fc) = [r, c]) \<Longrightarrow>
         \<exists>d'. for_loop (scale_entry cfg scales) fcs d = Inr d'"
proof (induction fcs arbitrary: d)
  case Nil
  show ?case by simp
next
  case (Cons fc fcs)
  from Cons.prems obtain r where fc: "fc < length d" and r: "r \<noteq> 0" "shape (d ! fc) = [r, c]"
    by auto
  obtain v where v: "trial_weight cfg scales (d ! fc) = Inr v" "shape v = shape (d ! fc)"
    using trial_weight_succeeds [OF gs r(2) r(1) c len] by blast
  have e: "scale_entry cfg scales fc d = Inr (d[fc := v])" using v by (simp add: scale_entry_def)
  have "\<forall>g \<in> set fcs. g < length (d[fc := v]) \<and> (\<exists>r. r \<noteq> 0 \<and> shape (d[fc := v] ! g) = [r, c])"
  proof
    fix g assume g: "g \<in> set fcs"
    then have old: "g < length d" "\<exists>r. r \<noteq> 0 \<and> shape (d ! g) = [r, c]" using Cons.prems by auto
    show "g < length (d[fc := v]) \<and> (\<exists>r. r \<noteq> 0 \<and> shape (d[fc := v] ! g) = [r, c])"
    proof (cases "g = fc")
      case True
      then show ?thesis using fc v(2) r by simp
    next
      case False
      then show ?thesis using old by simp
    qed
  qed
  from Cons.IH [OF this] show ?case using e by simp
qed

lemma scale_candidate_succeeds:
  assumes "length xm = n" and "duo_scaling cfg \<longrightarrow> length wm = n" and "0 < n"
  shows "\<exists>scales. scale_candidate cfg xm wm k = Inr scales \<and> length scales = n"
proof (cases "duo_scaling cfg")
  case True
  then have "length xm = length wm" and "xm \<noteq> []" and "wm \<noteq> []" using assms by auto
  then show ?thesis using assms True
    by (simp add: scale_candidate_def broadcast2_def Let_def)
next
  case False
  then show ?thesis using assms by (auto simp: scale_candidate_def Let_def)
qed

lemma compute_loss_single:
  assumes "0 < es" and "0 < max_chunk_memory cfg div (int es * 2)"
  shows "compute_loss cfg es [Fin a] [Fin b] = Inr (Fin ((a - b) * (a - b)))"
proof -
  have k: "min (max_chunk_memory cfg div (int es * 2)) 1 = 1" using assms(2) by simp
  show ?thesis
    using assms(1)
    by (simp add: compute_loss_def Let_def k torch_split_def chunks.simps chunk_sub_def
        fl_sum_def fl_sub_def)
qed

lemma search_trial_loss:
  assumes sh: "shape (V ! 0) = [1, 2]" and len: "V \<noteq> []"
  shows "\<exists>x. trial_loss example_config (example_args dev) V k = Inr (Fin x)"
proof -
  obtain scales where sc: "scale_candidate example_config [1, 1] [2499 / 10000, 9999 / 10000] k
      = Inr scales" and ls: "length scales = 2"
    using scale_candidate_succeeds [of "[1, 1]" 2 example_config "[2499 / 10000, 9999 / 10000]" k]
    by auto
  have gs: "0 < group_size example_config" and c: "int 2 mod group_size example_config = 0"
    by (simp_all add: example_config_def)
  have "\<forall>fc \<in> set [0]. fc < length V \<and> (\<exists>r. r \<noteq> 0 \<and> shape (V ! fc) = [r, 2])"
    using sh len by simp
  from scale_entries_succeed [OF gs c ls this]
  obtain d' where d': "for_loop (scale_entry example_config scales) [0] V = Inr d'" by blast
  have l: "compute_loss example_config 2 [Fin (12498 / 1000000)] [Fin (sum_list (vals (d' ! 0)))] =
      Inr (Fin ((12498 / 1000000 - sum_list (vals (d' ! 0))) *
                (12498 / 1000000 - sum_list (vals (d' ! 0)))))"
    by (rule compute_loss_single) (simp_all add: example_config_def)
  show ?thesis
    using sc d' l by (simp add: trial_loss_def example_args_def)
qed

lemma compute_best_scale_of_loop:
  assumes sn: "snapshot (device args) st0 = (sd, st1)"
    and loop: "for_loop (trial_step cfg args sd) [0..<20]
       \<lparr>model = st1, hist = [], best_error = PInf, best_ratio = - 1, best_scales = None\<rparr> = Inr s"
  shows "\<exists>r. compute_best_scale cfg args st0 = Inr r \<and> final r = model s \<and> history r = hist s"
proof (cases "best_ratio s = - 1")
  case True
  then show ?thesis using sn loop by (simp add: compute_best_scale_def)
next
  case False
  have "book cfg args s" using grid_book [OF loop] by simp
  then obtain sc where "best_scales s = Some sc" using False unfolding book_def by blast
  then show ?thesis using sn loop False by (simp add: compute_best_scale_def)
qed

lemma search_accelerator_runs:
  "\<exists>r. compute_best_scale example_config (example_args Accelerator) example_module = Inr r"
proof -
  let ?args = "example_args Accelerator"
  obtain sd st1 where sn: "snapshot Accelerator example_module = (sd, st1)"
    by (cases "snapshot Accelerator example_module")
  have wf: "wf_module example_module" by (simp add: wf_module_def example_module_def)
  have fcs: "\<forall>fc \<in> set (linears2scale ?args). fc < length (params example_module)"
    by (simp add: example_args_def example_module_def)
  have V: "state_dict example_module =
      [\<lparr>shape = [1, 2], vals = [2499 / 1000000, 9999 / 1000000]\<rparr>]"
    by (simp add: state_dict_def example_module_def)
  note i = snapshot_accelerator_sep [OF wf fcs sn]
  let ?s0 = "\<lparr>model = st1, hist = [], best_error = PInf, best_ratio = - 1, best_scales = None\<rparr>"
  have ok: "\<And>k. k < 20 \<Longrightarrow> \<exists>l. trial_loss example_config ?args (state_dict example_module) k = Inr l"
    using search_trial_loss [of "state_dict example_module" Accelerator] V by auto
  have "\<exists>s'. for_loop (trial_step example_config ?args sd) [0..<20] ?s0 = Inr s'"
    by (rule grid_succeeds [where V = "state_dict example_module"]) (use i ok in simp_all)
  then obtain s where "for_loop (trial_step example_config ?args sd) [0..<20] ?s0 = Inr s" by blast
  moreover have "snapshot (device ?args) example_module = (sd, st1)"
    using sn by (simp add: example_args_def)
  ultimately show ?thesis using compute_best_scale_of_loop by blast
qed

lemma search_accelerator_returns_scales:
  "\<exists>r scales. compute_best_scale example_config (example_args Accelerator) example_module = Inr r \<and>
     outcome r = Inr scales"
proof -
  let ?args = "example_args Accelerator"
  obtain r where r: "compute_best_scale example_config ?args example_module = Inr r"
    using search_accelerator_runs by blast
  have wf: "wf_module example_module" by (simp add: wf_module_def example_module_def)
  have fcs: "\<forall>fc \<in> set (linears2scale ?args). fc < length (params example_module)"
    by (simp add: example_args_def example_module_def)
  have dev: "device ?args = Accelerator" by (simp add: example_args_def)
  have V: "state_dict example_module =
      [\<lparr>shape = [1, 2], vals = [2499 / 1000000, 9999 / 1000000]\<rparr>]"
    by (simp add: state_dict_def example_module_def)
  have "trial_loss example_config ?args (state_dict example_module) 0 = Inr (history r ! 0)"
    and len: "length (history r) = 20"
    using compute_best_scale_restores_on_accelerator [OF dev wf fcs r] by simp_all
  moreover obtain x where "trial_loss example_config ?args (state_dict example_module) 0 = Inr (Fin x)"
    using search_trial_loss [of "state_dict example_module" Accelerator 0] V by auto
  ultimately have h0: "history r ! 0 = Fin x" by simp
  have "history r ! 0 \<in> set (history r)" using len by (intro nth_mem) simp
  then have "\<exists>l \<in> set (history r). fl_less l PInf" using h0 by (intro bexI [of _ "Fin x"]) simp_all
  then have "\<exists>scales. outcome r = Inr scales" using search_result_book [OF r] by blast
  then show ?thesis using r by blast
qed

lemma search_candidate_zero:
  "scale_candidate example_config [1, 1] [2499 / 10000, 9999 / 10000] 0 = Inr [2, 1 / 2]"
  by (simp add: scale_candidate_def broadcast2_def torch_pow_def example_config_def Let_def)

lemma search_scale_layer_zero:
  "scale_layer example_config [2, 1 / 2] 0 example_module =
     Inr \<lparr>params = [1],
          heap = [\<lparr>shape = [1, 2], vals = [4998 / 1000000, 9999 / 2000000]\<rparr>,
                  \<lparr>shape = [1, 2], vals = [1 / 200000, 1 / 50000]\<rparr>]\<rparr>"
  by (simp add: scale_layer_def scale_rows_def example_module_def example_config_def
      pseudo_quantize_tensor_def quant_groups_def row_dequant_def row_codes_def row_zero_def
      row_scale_def max_int_def min_int_def clamp_def torch_round_def chunks.simps Let_def)

lemma search_cpu_first_trial:
  "\<exists>s1. trial_step example_config (example_args Cpu) [0] 0
       \<lparr>model = example_module, hist = [], best_error = PInf, best_ratio = - 1, best_scales = None\<rparr>
       = Inr s1 \<and>
     model s1 = \<lparr>params = [1],
          heap = [\<lparr>shape = [1, 2], vals = [4998 / 1000000, 9999 / 2000000]\<rparr>,
                  \<lparr>shape = [1, 2], vals = [4998 / 1000000, 9999 / 2000000]\<rparr>]\<rparr> \<and>
     length (hist s1) = 1"
proof -
  have l: "compute_loss example_config 2 [Fin (12498 / 1000000)] [Fin (1 / 200000 + 1 / 50000)] =
      Inr (Fin ((12498 / 1000000 - (1 / 200000 + 1 / 50000)) *
                (12498 / 1000000 - (1 / 200000 + 1 / 50000))))"
    by (rule compute_loss_single) (simp_all add: example_config_def)
  show ?thesis
    using l
    by (simp add: trial_step_def example_args_def search_candidate_zero search_scale_layer_zero
        state_dict_def load_state_dict_def Let_def)
qed

text \<open>
  Claim C5 fails when the module is in host memory. There \<^verbatim>\<open>v.cpu()\<close> does not copy,
  so \<^verbatim>\<open>org_sd\<close> shares the storage that \<^verbatim>\<open>fc.weight.mul_(scales_view)\<close> overwrites in
  the first trial, and every \<^verbatim>\<open>load_state_dict(org_sd)\<close> writes back the weights
  multiplied by the first candidate's scales. In the example the first scales are
  \<open>[2, 1/2]\<close>: the search returns and leaves the weight \<open>[0.004998, 0.0049995]\<close>
  where \<open>[0.002499, 0.009999]\<close> was.
\<close>

theorem compute_best_scale_cpu_leaks:
  "map_sum id (\<lambda>r. state_dict (final r))
       (compute_best_scale example_config (example_args Cpu) example_module) =
     Inr [\<lparr>shape = [1, 2], vals = [4998 / 1000000, 9999 / 2000000]\<rparr>]
   \<and> state_dict example_module = [\<lparr>shape = [1, 2], vals = [2499 / 1000000, 9999 / 1000000]\<rparr>]"
proof -
  let ?cfg = example_config and ?args = "example_args Cpu"
  let ?V = "[\<lparr>shape = [1, 2], vals = [4998 / 1000000, 9999 / 2000000 :: real]\<rparr>]"
  let ?s0 = "\<lparr>model = example_module, hist = [], best_error = PInf, best_ratio = - 1,
      best_scales = None\<rparr>"
  obtain s1 where t0: "trial_step ?cfg ?args [0] 0 ?s0 = Inr s1"
    and m1: "model s1 = \<lparr>params = [1], heap = ?V @ ?V\<rparr>" and h1: "length (hist s1) = 1"
    using search_cpu_first_trial by auto
  have fcs: "linears2scale ?args = [0]" by (simp add: example_args_def)
  have sep1: "sep [0] ?V (linears2scale ?args) (model s1)"
    unfolding fcs m1 by (rule sepI) simp_all
  have v1: "state_dict (model s1) = ?V" by (simp add: m1 state_dict_def)
  have ok: "\<And>k. k < 20 \<Longrightarrow> \<exists>l. trial_loss ?cfg ?args ?V k = Inr l"
    using search_trial_loss [of ?V Cpu] by auto
  obtain s where rest: "for_loop (trial_step ?cfg ?args [0]) [1..<20] s1 = Inr s"
    using grid_succeeds [OF sep1 v1 ok, of 20 1] by auto
  have "state_dict (model s) = ?V"
    using grid_sep [OF rest sep1 v1] h1 by simp
  moreover have "for_loop (trial_step ?cfg ?args [0]) [0..<20] ?s0 = Inr s"
    using t0 rest by (simp add: upt_conv_Cons)
  moreover have "snapshot (device ?args) example_module = ([0], example_module)"
    by (simp add: snapshot_def example_args_def example_module_def)
  ultimately obtain r where "compute_best_scale ?cfg ?args example_module = Inr r"
    and "state_dict (final r) = ?V"
    using compute_best_scale_of_loop [of ?args example_module "[0]" example_module ?cfg s] by auto
  then show ?thesis by (simp add: state_dict_def example_module_def)
qed

text \<open>
  Claim C7. The only exception the search raises by itself is the one after the loop,
  never one inside a trial. When the twenty trials have run, it is raised exactly if no
  recorded loss is finite; then the loss history has been logged and no scales are
  returned. Otherwise the returned scales are those of a grid step with a finite loss that
  no other recorded loss is below.
\<close>

theorem scale_search_failure_iff:
  "(\<forall>r. compute_best_scale cfg args module2inspect = Inr r \<longrightarrow>
      length (history r) = 20 \<and>
      (outcome r = Inl SearchException \<longleftrightarrow> (\<forall>l \<in> set (history r). \<not> fl_finite l)) \<and>
      (outcome r = Inl SearchException \<longrightarrow> debug_log r = [history r]) \<and>
      (\<forall>e. outcome r = Inl e \<longrightarrow> e = SearchException) \<and>
      (\<forall>scales. outcome r = Inr scales \<longrightarrow>
         (\<exists>k < 20. scale_candidate cfg (x_mean args) (w_mean args) k = Inr scales \<and>
            fl_finite (history r ! k) \<and>
            (\<forall>j < 20. \<not> fl_less (history r ! j) (history r ! k))))) \<and>
   compute_best_scale cfg args module2inspect \<noteq> Inl SearchException"
proof (intro conjI allI impI)
  show "compute_best_scale cfg args module2inspect \<noteq> Inl SearchException"
    using compute_best_scale_error by blast
next
  fix r assume run: "compute_best_scale cfg args module2inspect = Inr r"
  note b = search_result_book [OF run]
  have len: "length (history r) = 20" and nn: "\<forall>l \<in> set (history r). l \<noteq> NInf"
    using b by simp_all
  have fin: "\<And>l. l \<in> set (history r) \<Longrightarrow> fl_less l PInf \<longleftrightarrow> fl_finite l"
    using nn fl_less_PInf by blast
  from b have cases: "outcome r = Inl SearchException \<and> debug_log r = [history r] \<and>
        (\<forall>l \<in> set (history r). \<not> fl_less l PInf)
      \<or> (\<exists>k < 20. \<exists>scales. outcome r = Inr scales \<and>
            scale_candidate cfg (x_mean args) (w_mean args) k = Inr scales \<and>
            fl_less (history r ! k) PInf \<and>
            (\<forall>j < 20. \<not> fl_less (history r ! j) (history r ! k)))"
    by simp
  show "length (history r) = 20" by (rule len)
  show "outcome r = Inl SearchException \<longleftrightarrow> (\<forall>l \<in> set (history r). \<not> fl_finite l)"
  proof
    assume "outcome r = Inl SearchException"
    then have "\<forall>l \<in> set (history r). \<not> fl_less l PInf" using cases by auto
    then show "\<forall>l \<in> set (history r). \<not> fl_finite l" using fin by blast
  next
    assume a: "\<forall>l \<in> set (history r). \<not> fl_finite l"
    show "outcome r = Inl SearchException"
    proof (rule ccontr)
      assume "outcome r \<noteq> Inl SearchException"
      then obtain k where k: "k < 20" "fl_less (history r ! k) PInf" using cases by auto
      have "history r ! k \<in> set (history r)" using k(1) len by simp
      then show False using a fin k(2) by blast
    qed
  qed
  show "debug_log r = [history r]" if "outcome r = Inl SearchException"
    using that cases by auto
  show "e = SearchException" if "outcome r = Inl e" for e
    using that cases by auto
  show "\<exists>k < 20. scale_candidate cfg (x_mean args) (w_mean args) k = Inr scales \<and>
            fl_finite (history r ! k) \<and>
            (\<forall>j < 20. \<not> fl_less (history r ! j) (history r ! k))"
    if o: "outcome r = Inr scales" for scales
  proof -
    from cases o obtain k where k: "k < 20"
      "scale_candidate cfg (x_mean args) (w_mean args) k = Inr scales"
      "fl_less (history r ! k) PInf" "\<forall>j < 20. \<not> fl_less (history r ! j) (history r ! k)"
      by auto
    have "history r ! k \<in> set (history r)" using k(1) len by simp
    then have "fl_finite (history r ! k)" using fin k(3) by blast
    then show ?thesis using k by blast
  qed
qed

text \<open>The example search on an accelerator: it runs through and returns scales.\<close>

theorem scale_search_failure_iff_witness:
  "\<exists>r. compute_best_scale example_config (example_args Accelerator) example_module = Inr r \<and>
     length (history r) = 20 \<and>
     (outcome r = Inl SearchException \<longleftrightarrow> (\<forall>l \<in> set (history r). \<not> fl_finite l)) \<and>
     (\<exists>scales k. outcome r = Inr scales \<and> k < 20 \<and>
        scale_candidate example_config (x_mean (example_args Accelerator))
          (w_mean (example_args Accelerator)) k = Inr scales \<and>
        fl_finite (history r ! k))"
proof -
  obtain r scales where r: "compute_best_scale example_config (example_args Accelerator) example_module = Inr r"
    and o: "outcome r = Inr scales"
    using search_accelerator_returns_scales by blast
  show ?thesis
    using scale_search_failure_iff [of example_config "example_args Accelerator" example_module] r o
    by blast
qed



section \<open>Dequantization of stored codes\<close>

text \<open>
  \<^verbatim>\<open>pseudo_dequantize_tensor\<close> on the codes, scales and zeros of a matrix. With one group
  per row it gives back what \<^verbatim>\<open>pseudo_quantize_tensor\<close> returns. With several groups per
  row \<^verbatim>\<open>scales.repeat(1, repeat_count)\<close> lines the scales up as \<open>s0, s1, s0, s1\<close>
  where the groups need \<open>s0, s0, s1, s1\<close>: for \<open>[-1, 2, 3, -100]\<close> in groups of two
  the result is \<open>[-1, 0, 2, -103]\<close>, not \<open>[-1, 2, 0, -103]\<close>.
\<close>

lemma replicate_two: "replicate 2 x = [x, x]"
  by (simp add: numeral_2_eq_2)

lemma pseudo_dequantize_one_group:
  "pseudo_quantize_codes example_config \<lparr>shape = [1, 2], vals = [- 1, 2]\<rparr> = Inr [[0, 15]]
   \<and> pseudo_quantize_tensor example_config \<lparr>shape = [1, 2], vals = [- 1, 2]\<rparr> =
       Inr (\<lparr>shape = [1, 2], vals = [- 1, 2]\<rparr>, \<lparr>shape = [1, 1], vals = [1 / 5]\<rparr>,
            Some \<lparr>shape = [1, 1], vals = [5]\<rparr>)
   \<and> pseudo_dequantize_tensor example_config \<lparr>shape = [1, 2], vals = [0, 15]\<rparr>
         \<lparr>shape = [1, 1], vals = [1 / 5]\<rparr> (Some \<lparr>shape = [1, 1], vals = [5]\<rparr>) =
       Inr \<lparr>shape = [1, 2], vals = [- 1, 2]\<rparr>"
  by (simp add: ev pseudo_dequantize_tensor_def repeat_cols_def replicate_two)

lemma pseudo_dequantize_two_groups:
  "pseudo_quantize_codes example_config \<lparr>shape = [1, 4], vals = [- 1, 2, 3, - 100]\<rparr> =
       Inr [[0, 15], [15, 0]]
   \<and> pseudo_dequantize_tensor example_config \<lparr>shape = [1, 4], vals = [0, 15, 15, 0]\<rparr>
         \<lparr>shape = [1, 2], vals = [1 / 5, 103 / 15]\<rparr> (Some \<lparr>shape = [1, 2], vals = [5, 15]\<rparr>) =
       Inr \<lparr>shape = [1, 4], vals = [- 1, 0, 2, - 103]\<rparr>"
  by (simp add: ev pseudo_dequantize_tensor_def repeat_cols_def replicate_two)

text \<open>
  The statistics of the example search are those of its weight: step 1 of
  \<^verbatim>\<open>_search_best_scale\<close> computes \<open>w_mean = [0.2499, 0.9999]\<close> from
  \<open>[[0.002499, 0.009999]]\<close>.
\<close>

lemma example_w_mean:
  "compute_w_mean example_config
     [\<lparr>weight = \<lparr>shape = [1, 2], vals = [2499 / 1000000, 9999 / 1000000]\<rparr>, bias = None\<rparr>] =
   Inr [2499 / 10000, 9999 / 10000]"
  by (simp add: compute_w_mean_def torch_cat0_def view_groups_def mean0_def chunks.simps
      example_config_def upt_conv_Cons)

end
